theory Spec2Isabelle
  imports Main "HOL-Library.AList"
begin

section \<open>The video catalog of src/module/video.js\<close>

text \<open>
  The module \<^verbatim>\<open>src/module/video.js\<close> exports one object of class \<^verbatim>\<open>Video\<close>
  whose methods read and write the table \<^verbatim>\<open>videos\<close>: \<^verbatim>\<open>getVideoInfo\<close>,
  \<^verbatim>\<open>getVideoList\<close>, \<^verbatim>\<open>hideVideo\<close>, \<^verbatim>\<open>unhideVideo\<close>, \<^verbatim>\<open>createVideo\<close>,
  \<^verbatim>\<open>isExistByHash\<close> and \<^verbatim>\<open>getVideoIdByInfoFileId\<close>. Each method is embedded
  below as a function of the same name that takes the table and returns its result,
  together with the new table where the method writes.

  Two columns hold text written by \<^verbatim>\<open>JSON.stringify\<close> and read back by
  \<^verbatim>\<open>JSON.parse\<close>, so the development starts with JSON values, their printer and
  their parser.
\<close>

subsection \<open>JSON values\<close>

text \<open>
  A value that \<^verbatim>\<open>JSON.stringify\<close> prints and \<^verbatim>\<open>JSON.parse\<close> returns. Objects
  list their properties in enumeration order. Two limits of the model: a number is an
  integer (the runtime's numbers are doubles, and fractions and exponents are left out),
  and a string is a list of 8-bit characters (the runtime's strings are lists of 16-bit
  code units).
\<close>

datatype json =
    JNull
  | JBool bool
  | JNum int
  | JStr string
  | JArr "json list"
  | JObj "(string \<times> json) list"

text \<open>A value of the program is a JSON value or \<^verbatim>\<open>undefined\<close> (\<open>None\<close>).\<close>

type_synonym jsval = "json option"

abbreviation dquote :: char where "dquote \<equiv> CHR 0x22"
abbreviation bslash :: char where "bslash \<equiv> CHR 0x5C"

subsection \<open>JSON.stringify\<close>

text \<open>
  Modelled from the spec: the Structured Field Codec of section 4.1, \<open>encode\<close>. In the
  source it is the runtime's \<^verbatim>\<open>JSON.stringify\<close> (video.js lines 126 and 130), whose code
  is not part of the repository. The model prints the JSON text without white space, as
  \<^verbatim>\<open>JSON.stringify\<close> with one argument does: a string is quoted, with the two-character escapes for
  backspace, tab, line feed, form feed, carriage return, the double quote and the reverse
  solidus, and the six-character escape with four lower-case hexadecimal digits for the
  other characters below 0x20; a number is printed in decimal.
\<close>

definition hex_digit :: "nat \<Rightarrow> char" where
  "hex_digit n = (if n < 10 then char_of (48 + n) else char_of (87 + n))"

definition quote_char :: "char \<Rightarrow> string" where
  "quote_char c =
     (if c = CHR 0x08 then [bslash, CHR ''b'']
      else if c = CHR 0x09 then [bslash, CHR ''t'']
      else if c = CHR 0x0A then [bslash, CHR ''n'']
      else if c = CHR 0x0C then [bslash, CHR ''f'']
      else if c = CHR 0x0D then [bslash, CHR ''r'']
      else if c = dquote then [bslash, dquote]
      else if c = bslash then [bslash, bslash]
      else if (of_char c :: nat) < 32
        then [bslash, CHR ''u'', CHR ''0'', CHR ''0'',
              hex_digit ((of_char c :: nat) div 16), hex_digit ((of_char c :: nat) mod 16)]
      else [c])"

definition quote :: "string \<Rightarrow> string" where
  "quote s = dquote # concat (map quote_char s) @ [dquote]"

fun digits :: "nat \<Rightarrow> string" where
  "digits n = (if n < 10 then [char_of (48 + n)] else digits (n div 10) @ [char_of (48 + n mod 10)])"

declare digits.simps [simp del]

definition number_to_string :: "int \<Rightarrow> string" where
  "number_to_string i = (if i < 0 then CHR ''-'' # digits (nat (- i)) else digits (nat i))"

fun join :: "string \<Rightarrow> string list \<Rightarrow> string" where
  "join sep [] = []"
| "join sep [x] = x"
| "join sep (x # y # ys) = x @ sep @ join sep (y # ys)"

fun stringify :: "json \<Rightarrow> string" where
  "stringify JNull = ''null''"
| "stringify (JBool b) = (if b then ''true'' else ''false'')"
| "stringify (JNum i) = number_to_string i"
| "stringify (JStr s) = quote s"
| "stringify (JArr xs) = ''['' @ join '','' (map stringify xs) @ '']''"
| "stringify (JObj kvs) =
     ''{'' @ join '','' (map (\<lambda>(k, v). quote k @ '':'' @ stringify v) kvs) @ ''}''"

subsection \<open>JSON.parse\<close>

text \<open>
  Modelled from the spec: the Structured Field Codec of section 4.1, \<open>decode\<close>, which
  fails on a malformed text. In the source it is the runtime's \<^verbatim>\<open>JSON.parse\<close>
  (video.js lines 25, 26, 63 and 64). The model is a recursive-descent parser of the
  JSON grammar: white space between tokens, the literals, strings with their escapes,
  integers without leading zeros, arrays and objects; a property that occurs twice keeps
  its first position and its last value. \<open>None\<close> is the runtime's SyntaxError. A number
  with a fraction or an exponent and an escape above 0xFF are outside the model and are
  refused.

  The three mutually recursive functions take a bound on the number of nested calls;
  every call chain spends at most two units per character read, so \<open>parse\<close> starts with
  twice the length of the text and one more.
\<close>

definition is_ws :: "char \<Rightarrow> bool" where
  "is_ws c = (c = CHR 0x20 \<or> c = CHR 0x09 \<or> c = CHR 0x0A \<or> c = CHR 0x0D)"

definition skip_ws :: "string \<Rightarrow> string" where
  "skip_ws s = dropWhile is_ws s"

definition is_digit :: "char \<Rightarrow> bool" where
  "is_digit c = (48 \<le> (of_char c :: nat) \<and> (of_char c :: nat) \<le> 57)"

definition hex_val :: "char \<Rightarrow> nat option" where
  "hex_val c =
     (let n = (of_char c :: nat) in
      if 48 \<le> n \<and> n \<le> 57 then Some (n - 48)
      else if 97 \<le> n \<and> n \<le> 102 then Some (n - 87)
      else if 65 \<le> n \<and> n \<le> 70 then Some (n - 55)
      else None)"

definition unescape :: "char \<Rightarrow> char option" where
  "unescape e =
     (if e = dquote then Some dquote
      else if e = bslash then Some bslash
      else if e = CHR ''/'' then Some (CHR ''/'')
      else if e = CHR ''b'' then Some (CHR 0x08)
      else if e = CHR ''f'' then Some (CHR 0x0C)
      else if e = CHR ''n'' then Some (CHR 0x0A)
      else if e = CHR ''r'' then Some (CHR 0x0D)
      else if e = CHR ''t'' then Some (CHR 0x09)
      else None)"

definition hex4 :: "char \<Rightarrow> char \<Rightarrow> char \<Rightarrow> char \<Rightarrow> nat option" where
  "hex4 a b c d =
     (case (hex_val a, hex_val b, hex_val c, hex_val d) of
        (Some w, Some x, Some y, Some z) \<Rightarrow> Some (((w * 16 + x) * 16 + y) * 16 + z)
      | _ \<Rightarrow> None)"

text \<open>The characters of a string after its opening quote, up to the closing quote.\<close>

fun parse_chars :: "string \<Rightarrow> (string \<times> string) option" where
  "parse_chars [] = None"
| "parse_chars (c # cs) =
     (if c = dquote then Some ([], cs)
      else if c = bslash then
        (case cs of
           [] \<Rightarrow> None
         | e # cs1 \<Rightarrow>
             if e = CHR ''u'' then
               (case cs1 of
                  h1 # h2 # h3 # h4 # cs2 \<Rightarrow>
                    (case hex4 h1 h2 h3 h4 of
                       None \<Rightarrow> None
                     | Some n \<Rightarrow>
                         if n < 256 then map_option (apfst ((#) (char_of n))) (parse_chars cs2)
                         else None)
                | _ \<Rightarrow> None)
             else
               (case unescape e of
                  None \<Rightarrow> None
                | Some ch \<Rightarrow> map_option (apfst ((#) ch)) (parse_chars cs1)))
      else if (of_char c :: nat) < 32 then None
      else map_option (apfst ((#) c)) (parse_chars cs))"

definition digits_value :: "string \<Rightarrow> nat" where
  "digits_value ds = foldl (\<lambda>acc d. 10 * acc + ((of_char d :: nat) - 48)) 0 ds"

definition parse_nat :: "string \<Rightarrow> (nat \<times> string) option" where
  "parse_nat s =
     (let ds = takeWhile is_digit s; r = dropWhile is_digit s in
      if ds = [] then None
      else if hd ds = CHR ''0'' \<and> length ds > 1 then None
      else if r \<noteq> [] \<and> (hd r = CHR ''.'' \<or> hd r = CHR ''e'' \<or> hd r = CHR ''E'') then None
      else Some (digits_value ds, r))"

definition parse_number :: "string \<Rightarrow> (json \<times> string) option" where
  "parse_number s =
     (case s of
        [] \<Rightarrow> None
      | c # cs \<Rightarrow>
          if c = CHR ''-'' then map_option (apfst (\<lambda>n. JNum (- int n))) (parse_nat cs)
          else map_option (apfst (\<lambda>n. JNum (int n))) (parse_nat s))"

definition expect :: "string \<Rightarrow> json \<Rightarrow> string \<Rightarrow> (json \<times> string) option" where
  "expect lit v s = (if take (length lit) s = lit then Some (v, drop (length lit) s) else None)"

definition make_object :: "(string \<times> json) list \<Rightarrow> json" where
  "make_object kvs = JObj (foldl (\<lambda>acc kv. AList.update (fst kv) (snd kv) acc) [] kvs)"

fun parse_value :: "nat \<Rightarrow> string \<Rightarrow> (json \<times> string) option"
and parse_elems :: "nat \<Rightarrow> string \<Rightarrow> (json list \<times> string) option"
and parse_members :: "nat \<Rightarrow> string \<Rightarrow> ((string \<times> json) list \<times> string) option"
where
  "parse_value 0 s = None"
| "parse_value (Suc n) s =
     (case skip_ws s of
        [] \<Rightarrow> None
      | c # cs \<Rightarrow>
          if c = CHR ''n'' then expect ''ull'' JNull cs
          else if c = CHR ''t'' then expect ''rue'' (JBool True) cs
          else if c = CHR ''f'' then expect ''alse'' (JBool False) cs
          else if c = dquote then map_option (apfst JStr) (parse_chars cs)
          else if c = CHR ''['' then
            (case skip_ws cs of
               [] \<Rightarrow> None
             | d # ds \<Rightarrow>
                 if d = CHR '']'' then Some (JArr [], ds)
                 else map_option (apfst JArr) (parse_elems n cs))
          else if c = CHR ''{'' then
            (case skip_ws cs of
               [] \<Rightarrow> None
             | d # ds \<Rightarrow>
                 if d = CHR ''}'' then Some (JObj [], ds)
                 else map_option (apfst make_object) (parse_members n cs))
          else parse_number (c # cs))"
| "parse_elems 0 s = None"
| "parse_elems (Suc n) s =
     (case parse_value n s of
        None \<Rightarrow> None
      | Some (v, r) \<Rightarrow>
          (case skip_ws r of
             [] \<Rightarrow> None
           | c # r1 \<Rightarrow>
               if c = CHR '','' then map_option (apfst ((#) v)) (parse_elems n r1)
               else if c = CHR '']'' then Some ([v], r1)
               else None))"
| "parse_members 0 s = None"
| "parse_members (Suc n) s =
     (case skip_ws s of
        [] \<Rightarrow> None
      | q # s1 \<Rightarrow>
          if q \<noteq> dquote then None
          else
            (case parse_chars s1 of
               None \<Rightarrow> None
             | Some (k, s2) \<Rightarrow>
                 (case skip_ws s2 of
                    [] \<Rightarrow> None
                  | c # s3 \<Rightarrow>
                      if c \<noteq> CHR '':'' then None
                      else
                        (case parse_value n s3 of
                           None \<Rightarrow> None
                         | Some (v, r) \<Rightarrow>
                             (case skip_ws r of
                                [] \<Rightarrow> None
                              | d # r1 \<Rightarrow>
                                  if d = CHR '','' then
                                    map_option (apfst ((#) (k, v))) (parse_members n r1)
                                  else if d = CHR ''}'' then Some ([(k, v)], r1)
                                  else None)))))"

definition parse :: "string \<Rightarrow> json option" where
  "parse s =
     (case parse_value (Suc (2 * length s)) s of
        None \<Rightarrow> None
      | Some (v, r) \<Rightarrow> if skip_ws r = [] then Some v else None)"

text \<open>
  An object of the runtime has each property once. \<open>wf_json\<close> says so of every object
  inside a value; it is the condition under which a list of pairs stands for an object.
\<close>

fun wf_json :: "json \<Rightarrow> bool" where
  "wf_json (JArr xs) = list_all wf_json xs"
| "wf_json (JObj kvs) = (distinct (map fst kvs) \<and> list_all (\<lambda>(k, v). wf_json v) kvs)"
| "wf_json _ = True"

subsection \<open>Property access and string conversion\<close>

text \<open>
  \<^verbatim>\<open>info.company\<close> reads a property of an object and is \<^verbatim>\<open>undefined\<close> when the
  object has none of that name. \<^verbatim>\<open>x + '-'\<close> converts \<open>x\<close> to a string first:
  \<open>js_to_string\<close> is the runtime's ToString on the values of the model.
\<close>

definition get_prop :: "(string \<times> json) list \<Rightarrow> string \<Rightarrow> jsval" where
  "get_prop obj k = map_of obj k"

fun to_string :: "json \<Rightarrow> string" where
  "to_string JNull = ''null''"
| "to_string (JBool b) = (if b then ''true'' else ''false'')"
| "to_string (JNum i) = number_to_string i"
| "to_string (JStr s) = s"
| "to_string (JArr xs) = join '','' (map (\<lambda>x. if x = JNull then [] else to_string x) xs)"
| "to_string (JObj kvs) = ''[object Object]''"

definition js_to_string :: "jsval \<Rightarrow> string" where
  "js_to_string v = (case v of None \<Rightarrow> ''undefined'' | Some j \<Rightarrow> to_string j)"

subsection \<open>The table videos and the query builder\<close>

text \<open>
  A row of the table \<^verbatim>\<open>videos\<close>, with the columns the source reads and writes.
  \<^verbatim>\<open>isHiden\<close> is a number: the source writes 0 and 1 and compares with \<^verbatim>\<open>=== 1\<close>.
  \<^verbatim>\<open>videoMetadata\<close> and \<^verbatim>\<open>storyboardFileIdSet\<close> hold JSON text.
\<close>

record row =
  row_id :: nat
  row_metadataId :: nat
  row_videoFileId :: nat
  row_isHiden :: nat
  row_infoFileId :: nat
  row_videoMetadata :: string
  row_storyboardFileIdSet :: string
  row_updateTime :: int

text \<open>
  Modelled from the spec: the storage backend. The source reaches it through
  \<^verbatim>\<open>require('./database')\<close>, a query builder whose module is not under src/. Section 6
  of the spec describes it as a relational table of rows keyed by a surrogate id, with a
  field \<^verbatim>\<open>videoMetadata\<close> from which the nested \<^verbatim>\<open>hash\<close> attribute can be extracted
  for equality filtering; section 3 says that an id is assigned at creation and never
  reused. The table is the list of its rows in insertion order and a counter for the
  next id.
\<close>

record database =
  videos :: "row list"
  auto_increment :: nat

definition empty_database :: database where
  "empty_database = \<lparr>videos = [], auto_increment = 1\<rparr>"

text \<open>Modelled from the spec: \<^verbatim>\<open>.where(column, value)\<close> keeps the rows whose column has the value.\<close>

definition where_id :: "nat \<Rightarrow> row list \<Rightarrow> row list" where
  "where_id i rs = filter (\<lambda>r. row_id r = i) rs"

definition where_isHiden :: "nat \<Rightarrow> row list \<Rightarrow> row list" where
  "where_isHiden h rs = filter (\<lambda>r. row_isHiden r = h) rs"

definition where_metadataId :: "nat \<Rightarrow> row list \<Rightarrow> row list" where
  "where_metadataId m rs = filter (\<lambda>r. row_metadataId r = m) rs"

definition where_infoFileId :: "nat \<Rightarrow> row list \<Rightarrow> row list" where
  "where_infoFileId f rs = filter (\<lambda>r. row_infoFileId r = f) rs"

text \<open>
  Modelled from the spec: the filter \<^verbatim>\<open>JSON_EXTRACT(videoMetadata, '$.hash') = ?\<close> of \<^verbatim>\<open>.whereRaw\<close>,
  the extraction of the nested \<^verbatim>\<open>hash\<close> attribute for equality filtering (section 6).
  A row matches when the text of its \<^verbatim>\<open>videoMetadata\<close> is an object whose property
  \<^verbatim>\<open>hash\<close> equals the bound value; a missing property, \<^verbatim>\<open>null\<close> and
  \<^verbatim>\<open>undefined\<close> match nothing, as a comparison with NULL does.
\<close>

definition json_extract :: "string \<Rightarrow> string \<Rightarrow> jsval" where
  "json_extract text k = (case parse text of Some (JObj kvs) \<Rightarrow> map_of kvs k | _ \<Rightarrow> None)"

definition hash_matches :: "jsval \<Rightarrow> row \<Rightarrow> bool" where
  "hash_matches h r =
     (case h of
        None \<Rightarrow> False
      | Some v \<Rightarrow> v \<noteq> JNull \<and> json_extract (row_videoMetadata r) ''hash'' = Some v)"

definition where_hash :: "jsval \<Rightarrow> row list \<Rightarrow> row list" where
  "where_hash h rs = filter (hash_matches h) rs"

text \<open>Modelled from the spec: \<^verbatim>\<open>.first()\<close> is the first row of the result, or \<^verbatim>\<open>undefined\<close>.\<close>

definition first :: "'a list \<Rightarrow> 'a option" where
  "first xs = (case xs of [] \<Rightarrow> None | x # _ \<Rightarrow> Some x)"

text \<open>
  Modelled from the spec: \<^verbatim>\<open>.where('id', i).update('isHiden', h)\<close> writes the column in
  the rows with that id and returns how many rows matched (section 4.3: \<open>hide\<close> returns
  false if no row matched).
\<close>

definition update_isHiden :: "nat \<Rightarrow> nat \<Rightarrow> database \<Rightarrow> nat \<times> database" where
  "update_isHiden i h d =
     (length (where_id i (videos d)),
      d\<lparr>videos := map (\<lambda>r. if row_id r = i then r\<lparr>row_isHiden := h\<rparr> else r) (videos d)\<rparr>)"

text \<open>
  Modelled from the spec: \<^verbatim>\<open>.insert(row)\<close> appends the row under the next id and
  returns the list that holds this id.
\<close>

definition insert_row :: "row \<Rightarrow> database \<Rightarrow> nat list \<times> database" where
  "insert_row r d =
     ([auto_increment d],
      d\<lparr>videos := videos d @ [r\<lparr>row_id := auto_increment d\<rparr>],
        auto_increment := Suc (auto_increment d)\<rparr>)"

text \<open>Modelled from the spec: \<^verbatim>\<open>.orderBy('id', 'desc')\<close>, descending by id (section 4.4).\<close>

definition orderBy_id_desc :: "row list \<Rightarrow> row list" where
  "orderBy_id_desc rs = rev (sort_key row_id rs)"

text \<open>
  Modelled from the spec: \<^verbatim>\<open>.paginate({ perPage, currentPage })\<close>, the windowing of
  section 4.4: skip \<open>(page - 1) * size\<close> rows and return up to \<open>size\<close> of the remainder,
  in the field \<^verbatim>\<open>data\<close>. The routes reject a page below 1 and no theorem below
  depends on one; the model reads it as page 1.
\<close>

definition paginate :: "nat \<Rightarrow> nat \<Rightarrow> row list \<Rightarrow> row list" where
  "paginate perPage currentPage rs =
     (let currentPage = (if currentPage < 1 then 1 else currentPage);
          offset = (currentPage - 1) * perPage
      in take perPage (drop offset rs))"

subsection \<open>The methods of class Video\<close>

text \<open>The object that \<^verbatim>\<open>getVideoInfo\<close> and \<^verbatim>\<open>getVideoList\<close> build for a row.\<close>

record video =
  video_id :: nat
  video_metadataId :: nat
  video_videoFileId :: nat
  video_isHiden :: bool
  video_infoFileId :: nat
  video_videoMetadata :: json
  video_storyboardFileIdSet :: json
  video_updateTime :: int

text \<open>The argument \<^verbatim>\<open>fileIds\<close> of \<^verbatim>\<open>createVideo\<close>.\<close>

record fileIds =
  fileIds_metaId :: nat
  fileIds_videoId :: nat
  fileIds_storyboardId :: json

text \<open>
  The exceptions of the methods: \<^verbatim>\<open>JSON.parse\<close> throws a SyntaxError on a malformed
  text, and reading a variable that is declared nowhere throws a ReferenceError that
  names it.
\<close>

datatype error = SyntaxError | ReferenceError string

text \<open>Every array of the runtime is truthy, the empty one too.\<close>

definition js_truthy_array :: "'a list \<Rightarrow> bool" where
  "js_truthy_array xs = True"

text \<open>
  \<^verbatim>\<open>getVideoInfo\<close> (lines 13 to 29). \<^verbatim>\<open>result\<close> is the array of the rows with the
  id, so \<^verbatim>\<open>!result\<close> is false and the object literal is evaluated. Its fourth property
  is \<^verbatim>\<open>isHiden: (item.isHiden === 1)\<close>, and the method declares no \<^verbatim>\<open>item\<close>
  (the name is the loop variable of \<^verbatim>\<open>getVideoList\<close>): the read throws a
  ReferenceError before any object is returned.
\<close>

definition getVideoInfo :: "database \<Rightarrow> nat \<Rightarrow> error + video option" where
  "getVideoInfo d i =
     (let result = where_id i (videos d) in
      if \<not> js_truthy_array result then Inr None
      else Inl (ReferenceError ''item''))"

definition JSON_parse :: "string \<Rightarrow> error + json" where
  "JSON_parse s = (case parse s of None \<Rightarrow> Inl SyntaxError | Some v \<Rightarrow> Inr v)"

text \<open>The body of the loop of \<^verbatim>\<open>getVideoList\<close> (lines 56 to 66).\<close>

definition process_item :: "row \<Rightarrow> error + video" where
  "process_item item =
     (case JSON_parse (row_videoMetadata item) of
        Inl e \<Rightarrow> Inl e
      | Inr vm \<Rightarrow>
          (case JSON_parse (row_storyboardFileIdSet item) of
             Inl e \<Rightarrow> Inl e
           | Inr sb \<Rightarrow>
               Inr \<lparr>video_id = row_id item,
                    video_metadataId = row_metadataId item,
                    video_videoFileId = row_videoFileId item,
                    video_isHiden = (row_isHiden item = 1),
                    video_infoFileId = row_infoFileId item,
                    video_videoMetadata = vm,
                    video_storyboardFileIdSet = sb,
                    video_updateTime = row_updateTime item\<rparr>))"

text \<open>The loop \<^verbatim>\<open>for (const i in result)\<close> with its accumulator \<^verbatim>\<open>processed\<close>.\<close>

fun process_all :: "row list \<Rightarrow> video list \<Rightarrow> error + video list" where
  "process_all [] processed = Inr processed"
| "process_all (item # rest) processed =
     (case process_item item of
        Inl e \<Rightarrow> Inl e
      | Inr v \<Rightarrow> process_all rest (processed @ [v]))"

text \<open>
  \<^verbatim>\<open>getVideoList\<close> (lines 41 to 70), with the four arguments given (the defaults of
  the source are page 1, size 20, no hidden records and no metadata filter, which is
  \<^verbatim>\<open>metadataId\<close> 0). \<^verbatim>\<open>result.data\<close> is an array, so the early return of line 52
  is never taken.
\<close>

definition getVideoList :: "database \<Rightarrow> nat \<Rightarrow> nat \<Rightarrow> bool \<Rightarrow> nat \<Rightarrow> error + video list" where
  "getVideoList d page size' showHiden metadataId =
     (let result = videos d;
          result = (if \<not> showHiden then where_isHiden 0 result else result);
          result = (if metadataId \<noteq> 0 then where_metadataId metadataId result else result);
          result = paginate size' page (orderBy_id_desc result)
      in if \<not> js_truthy_array result then Inr [] else process_all result [])"

text \<open>\<^verbatim>\<open>hideVideo\<close> (lines 79 to 82) and \<^verbatim>\<open>unhideVideo\<close> (lines 91 to 94).\<close>

definition hideVideo :: "database \<Rightarrow> nat \<Rightarrow> bool \<times> database" where
  "hideVideo d i = (let (n, d') = update_isHiden i 1 d in (n \<noteq> 0, d'))"

definition unhideVideo :: "database \<Rightarrow> nat \<Rightarrow> bool \<times> database" where
  "unhideVideo d i = (let (n, d') = update_isHiden i 0 d in (n \<noteq> 0, d'))"

text \<open>
  \<^verbatim>\<open>createVideo\<close> also calls \<^verbatim>\<open>metadata.getMetadataId\<close>, the Metadata Linker of
  section 4.2, whose module is not under src/. It is a parameter: a function of the key
  and of the linker's own state, of any type \<open>'m\<close>, that returns the metadata id (0 when
  unresolvable) and the new state. The world of \<^verbatim>\<open>createVideo\<close> is the table, the state
  of the linker and the list of the keys the linker was called with.
\<close>

record 'm world =
  db :: database
  metadata :: 'm
  linker_calls :: "string list"

definition call_getMetadataId ::
  "(string \<Rightarrow> 'm \<Rightarrow> nat \<times> 'm) \<Rightarrow> string \<Rightarrow> 'm world \<Rightarrow> nat \<times> 'm world" where
  "call_getMetadataId getMetadataId key w =
     (let (metaId, m') = getMetadataId key (metadata w)
      in (metaId, w\<lparr>metadata := m', linker_calls := linker_calls w @ [key]\<rparr>))"

text \<open>
  \<^verbatim>\<open>createVideo\<close> (lines 107 to 137). \<open>now\<close> is the value of
  \<^verbatim>\<open>(new Date()).getTime()\<close>. The result is the id, or \<open>None\<close> for the
  \<^verbatim>\<open>return\<close> without a value of line 122.
\<close>

definition createVideo ::
  "(string \<Rightarrow> 'm \<Rightarrow> nat \<times> 'm) \<Rightarrow> int \<Rightarrow> (string \<times> json) list \<Rightarrow> fileIds \<Rightarrow> 'm world
     \<Rightarrow> nat option \<times> 'm world" where
  "createVideo getMetadataId now info fileIds w =
     (let JAVID = js_to_string (get_prop info ''company'') @ ''-'' @ js_to_string (get_prop info ''id'');
          result = first (where_hash (get_prop info ''hash'') (videos (db w)))
      in if (case result of None \<Rightarrow> False | Some r \<Rightarrow> row_id r \<noteq> 0)
         then (map_option row_id result, w)
         else
           (let (metaId, w1) = call_getMetadataId getMetadataId JAVID w
            in if metaId = 0 then (None, w1)
               else
                 (let (result, d') =
                        insert_row
                          \<lparr>row_id = 0,
                           row_metadataId = metaId,
                           row_videoFileId = fileIds_videoId fileIds,
                           row_isHiden = 0,
                           row_infoFileId = fileIds_metaId fileIds,
                           row_videoMetadata = stringify (JObj info),
                           row_storyboardFileIdSet = stringify (fileIds_storyboardId fileIds),
                           row_updateTime = now\<rparr>
                          (db w1)
                  in (first result, w1\<lparr>db := d'\<rparr>))))"

text \<open>
  \<^verbatim>\<open>isExistByHash\<close> (lines 146 to 150): \<^verbatim>\<open>.count()\<close> returns an array with one
  object that holds the count.
\<close>

definition isExistByHash :: "database \<Rightarrow> jsval \<Rightarrow> bool" where
  "isExistByHash d hash =
     (let result = [length (where_hash hash (videos d))]
      in if js_truthy_array result \<and> hd result = 0 then False else True)"

text \<open>\<^verbatim>\<open>getVideoIdByInfoFileId\<close> (lines 159 to 165).\<close>

definition getVideoIdByInfoFileId :: "database \<Rightarrow> nat \<Rightarrow> nat" where
  "getVideoIdByInfoFileId d infoFileId =
     (case first (where_infoFileId infoFileId (videos d)) of
        None \<Rightarrow> 0
      | Some r \<Rightarrow> if row_id r \<noteq> 0 then row_id r else 0)"

subsection \<open>Invariant of the table and sequences of operations\<close>

text \<open>
  The tables that the methods produce from the empty one: the counter is positive, the
  ids are distinct, positive and below the counter, and both text columns of every row
  parse.
\<close>

definition wf_db :: "database \<Rightarrow> bool" where
  "wf_db d =
     (0 < auto_increment d \<and> distinct (map row_id (videos d)) \<and>
      list_all (\<lambda>r. 0 < row_id r \<and> row_id r < auto_increment d \<and>
                     parse (row_videoMetadata r) \<noteq> None \<and>
                     parse (row_storyboardFileIdSet r) \<noteq> None) (videos d))"

text \<open>A sequence of calls of \<^verbatim>\<open>hideVideo\<close> and \<^verbatim>\<open>unhideVideo\<close>.\<close>

datatype visibility_op = Hide nat | Unhide nat

fun apply_op :: "visibility_op \<Rightarrow> database \<Rightarrow> database" where
  "apply_op (Hide i) d = snd (hideVideo d i)"
| "apply_op (Unhide i) d = snd (unhideVideo d i)"

definition run_ops :: "visibility_op list \<Rightarrow> database \<Rightarrow> database" where
  "run_ops ops d = foldl (\<lambda>d op. apply_op op d) d ops"

text \<open>A row with its column \<^verbatim>\<open>isHiden\<close> masked: two rows with the same frame agree on every other column.\<close>

definition frame :: "row \<Rightarrow> row" where
  "frame r = r\<lparr>row_isHiden := 0\<rparr>"

subsection \<open>Notions used in the proofs about the parser\<close>

text \<open>What may follow a value inside a text that \<open>stringify\<close> printed.\<close>

definition delim :: "string \<Rightarrow> bool" where
  "delim r = (case r of [] \<Rightarrow> True | c # _ \<Rightarrow> c = CHR '','' \<or> c = CHR '']'' \<or> c = CHR ''}'')"

text \<open>A character that opens a value: no white space and no closing bracket.\<close>

definition starter :: "char \<Rightarrow> bool" where
  "starter c = (\<not> is_ws c \<and> c \<noteq> CHR '']'' \<and> c \<noteq> CHR ''}'')"

text \<open>A number of nested calls that suffices to parse the text of a value.\<close>

fun fuel :: "json \<Rightarrow> nat" where
  "fuel (JArr xs) = Suc (sum_list (map (\<lambda>x. Suc (fuel x)) xs))"
| "fuel (JObj kvs) = Suc (sum_list (map (\<lambda>(k, v). Suc (fuel v)) kvs))"
| "fuel _ = 1"

subsection \<open>The listing in the words of the specification\<close>

text \<open>Section 4.4: when \<open>includeHidden\<close> is false only the records that are not hidden are
  eligible, and when a metadata filter is present (a filter of 0 stands for none, as in
  the source) only the records with that \<^verbatim>\<open>metadataId\<close>; the eligible records are taken
  in descending order of id; a page skips \<open>(page - 1) * size\<close> of them and returns up to
  \<open>size\<close> of the remainder. \<open>pages_ids\<close> concatenates the ids of the pages 1 to \<open>k\<close>.\<close>

definition eligible :: "bool \<Rightarrow> nat \<Rightarrow> row \<Rightarrow> bool" where
  "eligible includeHidden metadataFilter r =
     ((includeHidden \<or> row_isHiden r = 0) \<and> (metadataFilter = 0 \<or> row_metadataId r = metadataFilter))"

definition eligible_desc :: "database \<Rightarrow> bool \<Rightarrow> nat \<Rightarrow> row list" where
  "eligible_desc d includeHidden metadataFilter =
     orderBy_id_desc (filter (eligible includeHidden metadataFilter) (videos d))"

definition window :: "nat \<Rightarrow> nat \<Rightarrow> 'a list \<Rightarrow> 'a list" where
  "window page size' xs = take size' (drop ((page - 1) * size') xs)"

definition ids_of :: "error + video list \<Rightarrow> nat list" where
  "ids_of res = (case res of Inl e \<Rightarrow> [] | Inr vs \<Rightarrow> map video_id vs)"

definition pages_ids :: "database \<Rightarrow> nat \<Rightarrow> bool \<Rightarrow> nat \<Rightarrow> nat \<Rightarrow> nat list" where
  "pages_ids d size' showHiden metadataId k =
     concat (map (\<lambda>page. ids_of (getVideoList d page size' showHiden metadataId)) [1..<Suc k])"

subsection \<open>Rows that differ in the visibility flag only\<close>

definition same_but_isHiden :: "row \<Rightarrow> row \<Rightarrow> bool" where
  "same_but_isHiden r r' =
     (row_id r' = row_id r \<and> row_metadataId r' = row_metadataId r \<and>
      row_videoFileId r' = row_videoFileId r \<and> row_infoFileId r' = row_infoFileId r \<and>
      row_storyboardFileIdSet r' = row_storyboardFileIdSet r \<and>
      row_videoMetadata r' = row_videoMetadata r \<and> row_updateTime r' = row_updateTime r)"

subsection \<open>Example inputs\<close>

definition example_info :: "(string \<times> json) list" where
  "example_info =
     [(''company'', JStr ''ABC''), (''id'', JNum 123), (''hash'', JStr ''h1''),
      (''tags'', JArr []), (''extra'', JObj []),
      (''cast'', JArr [JObj [(''name'', JStr [CHR ''a'', dquote, CHR 0x0A, CHR 0x01]), (''rank'', JNum (- 7))],
                       JArr [JArr [JNull, JBool True, JBool False]]])]"

definition example_fileIds :: fileIds where
  "example_fileIds =
     \<lparr>fileIds_metaId = 10, fileIds_videoId = 11, fileIds_storyboardId = JArr [JNum 12, JNum 13]\<rparr>"

text \<open>A second item with the hash of the first, an item whose key the example linker does
  not resolve, the linker, and the worlds before and after the first item is created.\<close>

definition example_info_dup :: "(string \<times> json) list" where
  "example_info_dup = [(''hash'', JStr ''h1''), (''company'', JStr ''XYZ''), (''id'', JNum 7)]"

definition example_info_unlinked :: "(string \<times> json) list" where
  "example_info_unlinked = [(''company'', JStr ''XYZ''), (''id'', JNum 7), (''hash'', JStr ''h2'')]"

definition example_linker :: "string \<Rightarrow> nat \<Rightarrow> nat \<times> nat" where
  "example_linker key m = (if key = ''ABC-123'' then (Suc m, Suc m) else (0, m))"

definition example_row :: row where
  "example_row =
     \<lparr>row_id = 1, row_metadataId = 1, row_videoFileId = 11, row_isHiden = 0, row_infoFileId = 10,
      row_videoMetadata = stringify (JObj example_info),
      row_storyboardFileIdSet = stringify (JArr [JNum 12, JNum 13]),
      row_updateTime = 1000\<rparr>"

definition example_world0 :: "nat world" where
  "example_world0 = \<lparr>db = empty_database, metadata = 0, linker_calls = []\<rparr>"

definition example_world1 :: "nat world" where
  "example_world1 =
     \<lparr>db = \<lparr>videos = [example_row], auto_increment = 2\<rparr>,
      metadata = 1, linker_calls = [''ABC-123'']\<rparr>"

definition example_row2 :: row where
  "example_row2 = example_row\<lparr>row_id := 2, row_metadataId := 2, row_isHiden := 1\<rparr>"

definition example_db2 :: database where
  "example_db2 = \<lparr>videos = [example_row, example_row2], auto_increment = 3\<rparr>"

section \<open>The parser inverts the printer\<close>

lemma hex_val_hex_digit: "n < 16 \<Longrightarrow> hex_val (hex_digit n) = Some n"
  by (simp add: hex_val_def hex_digit_def Let_def)

lemma of_char_lt_256: "(of_char (c::char) :: nat) < 256"
  by (metis of_char_mod_256 mod_less_divisor zero_less_numeral)

lemma parse_chars_quote_char:
  "parse_chars (quote_char c @ t) = map_option (apfst ((#) c)) (parse_chars t)"
proof -
  consider (b) "c = CHR 0x08" | (t) "c = CHR 0x09" | (n) "c = CHR 0x0A" | (f) "c = CHR 0x0C"
    | (r) "c = CHR 0x0D" | (q) "c = dquote" | (s) "c = bslash"
    | (u) "c \<noteq> CHR 0x08" "c \<noteq> CHR 0x09" "c \<noteq> CHR 0x0A" "c \<noteq> CHR 0x0C" "c \<noteq> CHR 0x0D"
          "c \<noteq> dquote" "c \<noteq> bslash" "(of_char c :: nat) < 32"
    | (o) "c \<noteq> dquote" "c \<noteq> bslash" "\<not> (of_char c :: nat) < 32"
    by blast
  then show ?thesis
  proof cases
    case u
    let ?n = "of_char c :: nat"
    have h: "hex4 (CHR ''0'') (CHR ''0'') (hex_digit (?n div 16)) (hex_digit (?n mod 16)) = Some ?n"
    proof -
      have "?n div 16 < 16" using u(8) by simp
      then have a: "hex_val (hex_digit (?n div 16)) = Some (?n div 16)" by (rule hex_val_hex_digit)
      have b: "hex_val (hex_digit (?n mod 16)) = Some (?n mod 16)" by (rule hex_val_hex_digit) simp
      have z: "hex_val (CHR ''0'') = Some 0" by (simp add: hex_val_def)
      show ?thesis unfolding hex4_def by (simp add: a b z)
    qed
    have q: "quote_char c = [bslash, CHR ''u'', CHR ''0'', CHR ''0'', hex_digit (?n div 16), hex_digit (?n mod 16)]"
      using u by (simp add: quote_char_def)
    show ?thesis unfolding q using h u(8) by simp
  next
    case o
    then have "quote_char c = [c]" by (auto simp: quote_char_def)
    with o show ?thesis by simp
  qed (simp_all add: quote_char_def unescape_def)
qed

lemma parse_chars_quoted:
  "parse_chars (concat (map quote_char s) @ dquote # r) = Some (s, r)"
proof (induction s)
  case Nil
  show ?case by simp
next
  case (Cons c s)
  have "parse_chars (concat (map quote_char (c # s)) @ dquote # r)
      = parse_chars (quote_char c @ (concat (map quote_char s) @ dquote # r))" by simp
  also have "\<dots> = map_option (apfst ((#) c)) (parse_chars (concat (map quote_char s) @ dquote # r))"
    by (rule parse_chars_quote_char)
  finally show ?case using Cons.IH by simp
qed

lemma is_digit_char_of: "(d::nat) < 10 \<Longrightarrow> is_digit (char_of (48 + d))"
  by (simp add: is_digit_def)

lemma digits_all_digit: "\<forall>c \<in> set (digits n). is_digit c"
proof (induction n rule: digits.induct)
  case (1 n)
  show ?case
  proof (cases "n < 10")
    case True
    then show ?thesis by (subst digits.simps) (simp add: is_digit_char_of)
  next
    case False
    have "is_digit (char_of (48 + n mod 10))" by (rule is_digit_char_of) simp
    with False 1 show ?thesis by (subst digits.simps) simp
  qed
qed

lemma digits_nonempty: "digits n \<noteq> []"
  by (subst digits.simps) simp

lemma digits_value_snoc:
  "digits_value (ds @ [d]) = 10 * digits_value ds + ((of_char d :: nat) - 48)"
  by (simp add: digits_value_def)

lemma digits_value_digits: "digits_value (digits n) = n"
proof (induction n rule: digits.induct)
  case (1 n)
  show ?case
  proof (cases "n < 10")
    case True
    then show ?thesis by (subst digits.simps) (simp add: digits_value_def)
  next
    case False
    have "digits_value (digits n) = 10 * digits_value (digits (n div 10)) + ((of_char (char_of (48 + n mod 10) :: char) :: nat) - 48)"
      using False by (subst digits.simps) (simp add: digits_value_snoc)
    also have "\<dots> = 10 * (n div 10) + n mod 10"
      using 1 False by simp
    finally show ?thesis by simp
  qed
qed

lemma hd_digits_zero: "hd (digits n) = CHR ''0'' \<Longrightarrow> n = 0"
proof (induction n rule: digits.induct)
  case (1 n)
  show ?case
  proof (cases "n < 10")
    case True
    with 1(2) have "char_of (48 + n) = CHR ''0''" by (subst (asm) digits.simps) simp
    then have "(of_char (char_of (48 + n) :: char) :: nat) = of_char (CHR ''0'')" by simp
    with True show ?thesis by simp
  next
    case False
    with 1(2) have "hd (digits (n div 10)) = CHR ''0''"
      by (subst (asm) digits.simps) (simp add: digits_nonempty)
    with 1(1) False have "n div 10 = 0" by simp
    with False show ?thesis by simp
  qed
qed

lemma length_digits_zero: "length (digits 0) = 1"
  by (subst digits.simps) simp

lemma delim_not_digit: "delim r \<Longrightarrow> r \<noteq> [] \<Longrightarrow> \<not> is_digit (hd r)"
  by (auto simp: delim_def is_digit_def split: list.splits)

lemma parse_nat_digits:
  assumes "delim r"
  shows "parse_nat (digits n @ r) = Some (n, r)"
proof -
  have tk: "takeWhile is_digit (digits n @ r) = digits n"
    using digits_all_digit[of n] delim_not_digit[OF assms]
    by (cases r) simp_all
  have dr: "dropWhile is_digit (digits n @ r) = r"
    using digits_all_digit[of n] delim_not_digit[OF assms]
    by (cases r) simp_all
  have lz: "\<not> (hd (digits n) = CHR ''0'' \<and> length (digits n) > 1)"
    using hd_digits_zero[of n] length_digits_zero by auto
  have nd: "\<not> (r \<noteq> [] \<and> (hd r = CHR ''.'' \<or> hd r = CHR ''e'' \<or> hd r = CHR ''E''))"
    using assms by (auto simp: delim_def split: list.splits)
  show ?thesis
    unfolding parse_nat_def Let_def tk dr
    using lz nd digits_nonempty[of n] digits_value_digits[of n] by simp
qed

lemma hd_digits_is_digit: "is_digit (hd (digits n))"
  using digits_all_digit[of n] digits_nonempty[of n] by (cases "digits n") auto

lemma parse_number_number_to_string:
  assumes "delim r"
  shows "parse_number (number_to_string i @ r) = Some (JNum i, r)"
proof (cases "i < 0")
  case True
  then show ?thesis
    by (simp add: parse_number_def number_to_string_def parse_nat_digits[OF assms])
next
  case False
  obtain c cs where d: "digits (nat i) = c # cs"
    using digits_nonempty[of "nat i"] by (cases "digits (nat i)") auto
  have "is_digit c" using hd_digits_is_digit[of "nat i"] d by simp
  then have ne: "c \<noteq> CHR ''-''" by (auto simp: is_digit_def)
  have "parse_nat (c # cs @ r) = Some (nat i, r)"
    using parse_nat_digits[OF assms, of "nat i"] d by simp
  with False ne d show ?thesis
    by (simp add: parse_number_def number_to_string_def)
qed

lemma skip_ws_Cons: "\<not> is_ws c \<Longrightarrow> skip_ws (c # cs) = c # cs"
  by (simp add: skip_ws_def)

lemma number_to_string_hd:
  "\<exists>c cs. number_to_string i = c # cs \<and> (c = CHR ''-'' \<or> is_digit c)"
proof (cases "i < 0")
  case True
  then show ?thesis by (simp add: number_to_string_def)
next
  case False
  obtain c cs where d: "digits (nat i) = c # cs"
    using digits_nonempty[of "nat i"] by (cases "digits (nat i)") auto
  then have "is_digit c" using hd_digits_is_digit[of "nat i"] by simp
  with False d show ?thesis by (simp add: number_to_string_def)
qed

lemma stringify_hd: "\<exists>c cs. stringify v = c # cs \<and> starter c"
proof (cases v)
  case (JNum i)
  obtain c cs where "number_to_string i = c # cs" "c = CHR ''-'' \<or> is_digit c"
    using number_to_string_hd by blast
  with JNum show ?thesis by (auto simp: starter_def is_ws_def is_digit_def)
qed (auto simp: starter_def is_ws_def quote_def)

lemma parse_value_number:
  assumes "delim r"
  shows "parse_value (Suc n) (number_to_string i @ r) = Some (JNum i, r)"
proof -
  obtain c cs where h: "number_to_string i = c # cs" "c = CHR ''-'' \<or> is_digit c"
    using number_to_string_hd by blast
  then have nw: "\<not> is_ws c" and ne: "c \<noteq> CHR ''n''" "c \<noteq> CHR ''t''" "c \<noteq> CHR ''f''"
      "c \<noteq> dquote" "c \<noteq> CHR ''[''" "c \<noteq> CHR ''{''"
    by (auto simp: is_ws_def is_digit_def)
  have "parse_value (Suc n) (c # cs @ r) = parse_number (c # cs @ r)"
    using ne by (simp add: skip_ws_Cons[OF nw])
  then show ?thesis using parse_number_number_to_string[OF assms, of i] h(1) by simp
qed

lemma delim_simps [simp]:
  "delim []" "delim (CHR '','' # s)" "delim (CHR '']'' # s)" "delim (CHR ''}'' # s)"
  by (simp_all add: delim_def)

lemma skip_ws_simps [simp]:
  "skip_ws (CHR '','' # s) = CHR '','' # s"
  "skip_ws (CHR '']'' # s) = CHR '']'' # s"
  "skip_ws (CHR ''}'' # s) = CHR ''}'' # s"
  "skip_ws (CHR '':'' # s) = CHR '':'' # s"
  "skip_ws (dquote # s) = dquote # s"
  by (simp_all add: skip_ws_def is_ws_def)

lemma parse_elems_join:
  assumes "\<And>x m r. x \<in> set xs \<Longrightarrow> fuel x \<le> m \<Longrightarrow> delim r \<Longrightarrow>
             parse_value m (stringify x @ r) = Some (x, r)"
    and "xs \<noteq> []"
    and "sum_list (map (\<lambda>x. Suc (fuel x)) xs) \<le> n"
  shows "parse_elems n (join '','' (map stringify xs) @ CHR '']'' # r) = Some (xs, r)"
  using assms
proof (induction xs arbitrary: n)
  case Nil
  then show ?case by simp
next
  case (Cons x xs)
  note IH = Cons.IH and prems = Cons.prems
  from Cons.prems(3) obtain m where n: "n = Suc m" and fx: "fuel x \<le> m"
    and rest: "sum_list (map (\<lambda>x. Suc (fuel x)) xs) \<le> m"
    by (cases n) auto
  show ?case
  proof (cases xs)
    case Nil
    have "parse_value m (stringify x @ CHR '']'' # r) = Some (x, CHR '']'' # r)"
      using prems(1)[of x m "CHR '']'' # r"] fx by simp
    then show ?thesis using Nil n by simp
  next
    case (Cons y ys)
    let ?t = "join '','' (map stringify xs) @ CHR '']'' # r"
    have pv: "parse_value m (stringify x @ CHR '','' # ?t) = Some (x, CHR '','' # ?t)"
      using prems(1)[of x m "CHR '','' # ?t"] fx by simp
    have ih: "parse_elems m ?t = Some (xs, r)"
    proof (rule IH)
      show "parse_value m' (stringify x' @ r') = Some (x', r')"
        if "x' \<in> set xs" "fuel x' \<le> m'" "delim r'" for x' m' r'
        using that prems(1)[of x' m' r'] by simp
      show "xs \<noteq> []" using Cons by simp
      show "sum_list (map (\<lambda>x. Suc (fuel x)) xs) \<le> m" by (rule rest)
    qed
    have "join '','' (map stringify (x # xs)) @ CHR '']'' # r = stringify x @ CHR '','' # ?t"
      using Cons by simp
    then show ?thesis using pv ih n by simp
  qed
qed

lemma parse_members_join:
  assumes "\<And>k x m r. (k, x) \<in> set kvs \<Longrightarrow> fuel x \<le> m \<Longrightarrow> delim r \<Longrightarrow>
             parse_value m (stringify x @ r) = Some (x, r)"
    and "kvs \<noteq> []"
    and "sum_list (map (\<lambda>(k, v). Suc (fuel v)) kvs) \<le> n"
  shows "parse_members n
           (join '','' (map (\<lambda>(k, v). quote k @ '':'' @ stringify v) kvs) @ CHR ''}'' # r)
         = Some (kvs, r)"
  using assms
proof (induction kvs arbitrary: n)
  case Nil
  then show ?case by simp
next
  case (Cons kv kvs)
  note IH = Cons.IH and prems = Cons.prems
  obtain k x where kv: "kv = (k, x)" by (cases kv)
  from Cons.prems(3) kv obtain m where n: "n = Suc m" and fx: "fuel x \<le> m"
    and rest: "sum_list (map (\<lambda>(k, v). Suc (fuel v)) kvs) \<le> m"
    by (cases n) auto
  have key: "\<And>t. parse_chars (concat (map quote_char k) @ dquote # t) = Some (k, t)"
    by (rule parse_chars_quoted)
  show ?case
  proof (cases kvs)
    case Nil
    have "parse_value m (stringify x @ CHR ''}'' # r) = Some (x, CHR ''}'' # r)"
      using prems(1)[of k x m "CHR ''}'' # r"] fx kv by simp
    then show ?thesis using Nil n kv key by (simp add: quote_def)
  next
    case (Cons y ys)
    let ?t = "join '','' (map (\<lambda>(k, v). quote k @ '':'' @ stringify v) kvs) @ CHR ''}'' # r"
    have pv: "parse_value m (stringify x @ CHR '','' # ?t) = Some (x, CHR '','' # ?t)"
      using prems(1)[of k x m "CHR '','' # ?t"] fx kv by simp
    have ih: "parse_members m ?t = Some (kvs, r)"
    proof (rule IH)
      show "parse_value m' (stringify x' @ r') = Some (x', r')"
        if "(k', x') \<in> set kvs" "fuel x' \<le> m'" "delim r'" for k' x' m' r'
        using that prems(1)[of k' x' m' r'] by simp
      show "kvs \<noteq> []" using Cons by simp
      show "sum_list (map (\<lambda>(k, v). Suc (fuel v)) kvs) \<le> m" by (rule rest)
    qed
    have "join '','' (map (\<lambda>(k, v). quote k @ '':'' @ stringify v) (kv # kvs)) @ CHR ''}'' # r
        = dquote # concat (map quote_char k) @ dquote # CHR '':'' # stringify x @ CHR '','' # ?t"
      using Cons kv by (simp add: quote_def)
    then show ?thesis using pv ih n key kv by simp
  qed
qed

lemma update_fresh: "k \<notin> fst ` set acc \<Longrightarrow> AList.update k v acc = acc @ [(k, v)]"
  by (induction acc) auto

lemma foldl_update_distinct:
  "distinct (map fst (acc @ kvs)) \<Longrightarrow>
   foldl (\<lambda>acc kv. AList.update (fst kv) (snd kv) acc) acc kvs = acc @ kvs"
proof (induction kvs arbitrary: acc)
  case Nil
  show ?case by simp
next
  case (Cons kv kvs)
  have fresh: "fst kv \<notin> fst ` set acc" using Cons.prems by auto
  have "distinct (map fst ((acc @ [kv]) @ kvs))" using Cons.prems by simp
  then have "foldl (\<lambda>acc kv. AList.update (fst kv) (snd kv) acc) (acc @ [kv]) kvs = (acc @ [kv]) @ kvs"
    by (rule Cons.IH)
  then show ?case using update_fresh[OF fresh, of "snd kv"] by simp
qed

lemma make_object_distinct: "distinct (map fst kvs) \<Longrightarrow> make_object kvs = JObj kvs"
  using foldl_update_distinct[of "[]" kvs] by (simp add: make_object_def)

lemma parse_value_stringify:
  "wf_json v \<Longrightarrow> fuel v \<le> n \<Longrightarrow> delim r \<Longrightarrow> parse_value n (stringify v @ r) = Some (v, r)"
proof (induction v arbitrary: n r)
  case JNull
  then obtain m where "n = Suc m" by (cases n) auto
  then show ?case by (simp add: skip_ws_def is_ws_def expect_def)
next
  case (JBool b)
  then obtain m where "n = Suc m" by (cases n) auto
  then show ?case by (simp add: skip_ws_def is_ws_def expect_def)
next
  case (JNum i)
  then obtain m where "n = Suc m" by (cases n) auto
  then show ?case using parse_value_number[OF JNum.prems(3)] by simp
next
  case (JStr s)
  then obtain m where "n = Suc m" by (cases n) auto
  then show ?case by (simp add: quote_def parse_chars_quoted)
next
  case (JArr xs)
  from JArr.prems(2) obtain m where n: "n = Suc m"
    and fm: "sum_list (map (\<lambda>x. Suc (fuel x)) xs) \<le> m"
    by (cases n) auto
  show ?case
  proof (cases xs)
    case Nil
    then show ?thesis using n by (simp add: skip_ws_def is_ws_def)
  next
    case (Cons y ys)
    let ?t = "join '','' (map stringify xs) @ CHR '']'' # r"
    have pe: "parse_elems m ?t = Some (xs, r)"
    proof (rule parse_elems_join)
      show "parse_value m' (stringify x @ r') = Some (x, r')"
        if "x \<in> set xs" "fuel x \<le> m'" "delim r'" for x m' r'
        using that JArr.IH[of x m' r'] JArr.prems(1) by (simp add: list_all_iff)
      show "xs \<noteq> []" using Cons by simp
      show "sum_list (map (\<lambda>x. Suc (fuel x)) xs) \<le> m" by (rule fm)
    qed
    obtain c cs where hd: "stringify y = c # cs" "starter c"
      using stringify_hd by blast
    obtain t' where t: "?t = c # t'"
      using Cons hd(1) by (cases ys) auto
    have sk: "skip_ws (c # t') = c # t'" and nb: "c \<noteq> CHR '']''"
      using hd(2) by (simp_all add: starter_def skip_ws_Cons)
    have "parse_value (Suc m) (CHR ''['' # ?t) = map_option (apfst JArr) (parse_elems m ?t)"
      unfolding t using sk nb by (simp add: skip_ws_def is_ws_def)
    then show ?thesis using pe n by simp
  qed
next
  case (JObj kvs)
  from JObj.prems(2) obtain m where n: "n = Suc m"
    and fm: "sum_list (map (\<lambda>(k, v). Suc (fuel v)) kvs) \<le> m"
    by (cases n) auto
  have dk: "distinct (map fst kvs)" using JObj.prems(1) by simp
  show ?case
  proof (cases kvs)
    case Nil
    then show ?thesis using n by (simp add: skip_ws_def is_ws_def)
  next
    case (Cons y ys)
    let ?t = "join '','' (map (\<lambda>(k, v). quote k @ '':'' @ stringify v) kvs) @ CHR ''}'' # r"
    have pm: "parse_members m ?t = Some (kvs, r)"
    proof (rule parse_members_join)
      show "parse_value m' (stringify x @ r') = Some (x, r')"
        if "(k, x) \<in> set kvs" "fuel x \<le> m'" "delim r'" for k x m' r'
      proof (rule JObj.IH)
        show "(k, x) \<in> set kvs" by (rule that(1))
        show "x \<in> Basic_BNFs.snds (k, x)" by simp
        show "wf_json x" using that(1) JObj.prems(1) by (auto simp: list_all_iff)
        show "fuel x \<le> m'" by (rule that(2))
        show "delim r'" by (rule that(3))
      qed
      show "kvs \<noteq> []" using Cons by simp
      show "sum_list (map (\<lambda>(k, v). Suc (fuel v)) kvs) \<le> m" by (rule fm)
    qed
    obtain t' where t: "?t = dquote # t'"
      using Cons by (cases y; cases ys) (auto simp: quote_def)
    have "parse_value (Suc m) (CHR ''{'' # ?t) = map_option (apfst make_object) (parse_members m ?t)"
      unfolding t by (simp add: skip_ws_def is_ws_def)
    then show ?thesis using pm n make_object_distinct[OF dk] by simp
  qed
qed

lemma length_join:
  "xs \<noteq> [] \<Longrightarrow> length (join sep xs) + length sep = sum_list (map (\<lambda>x. length x + length sep) xs)"
  by (induction sep xs rule: join.induct) auto

lemma stringify_nonempty: "stringify v \<noteq> []"
  using stringify_hd[of v] by auto

lemma fuel_le_length: "fuel v \<le> length (stringify v)"
proof (induction v)
  case (JArr xs)
  show ?case
  proof (cases "xs = []")
    case True
    then show ?thesis by simp
  next
    case False
    have "sum_list (map (\<lambda>x. Suc (fuel x)) xs) \<le> sum_list (map (\<lambda>x. length x + length '','') (map stringify xs))"
      unfolding map_map comp_def using JArr.IH by (intro sum_list_mono) simp
    also have "\<dots> = length (join '','' (map stringify xs)) + length '',''"
      using False length_join[of "map stringify xs" "'',''"] by simp
    finally show ?thesis by simp
  qed
next
  case (JObj kvs)
  show ?case
  proof (cases "kvs = []")
    case True
    then show ?thesis by simp
  next
    case False
    let ?f = "\<lambda>(k, v). quote k @ '':'' @ stringify v"
    have "sum_list (map (\<lambda>(k, v). Suc (fuel v)) kvs) \<le> sum_list (map (\<lambda>x. length x + length '','') (map ?f kvs))"
      unfolding map_map comp_def
    proof (intro sum_list_mono)
      fix kv assume mem: "kv \<in> set kvs"
      obtain k v where kv: "kv = (k, v)" by (cases kv)
      have "fuel v \<le> length (stringify v)"
      proof (rule JObj.IH)
        show "(k, v) \<in> set kvs" using mem kv by simp
        show "v \<in> Basic_BNFs.snds (k, v)" by simp
      qed
      then show "(case kv of (k, v) \<Rightarrow> Suc (fuel v)) \<le> length (case kv of (k, v) \<Rightarrow> quote k @ '':'' @ stringify v) + length '',''"
        using kv by simp
    qed
    also have "\<dots> = length (join '','' (map ?f kvs)) + length '',''"
      using False length_join[of "map ?f kvs" "'',''"] by simp
    finally show ?thesis by simp
  qed
qed (simp_all add: quote_def number_to_string_def digits_nonempty Suc_leI)

lemma parse_stringify: "wf_json v \<Longrightarrow> parse (stringify v) = Some v"
proof -
  assume wf: "wf_json v"
  have "fuel v \<le> Suc (2 * length (stringify v))"
    using fuel_le_length[of v] by simp
  then have "parse_value (Suc (2 * length (stringify v))) (stringify v @ []) = Some (v, [])"
    using wf by (intro parse_value_stringify) simp_all
  then show ?thesis by (simp add: parse_def skip_ws_def)
qed

section \<open>Lemmas about the table\<close>

lemma where_id_empty_iff: "where_id i rs = [] \<longleftrightarrow> i \<notin> row_id ` set rs"
  by (auto simp: where_id_def filter_empty_conv)

lemma hideVideo_eq:
  "hideVideo d i = (i \<in> row_id ` set (videos d),
     d\<lparr>videos := map (\<lambda>r. if row_id r = i then r\<lparr>row_isHiden := 1\<rparr> else r) (videos d)\<rparr>)"
  using where_id_empty_iff[of i "videos d"] by (auto simp: hideVideo_def update_isHiden_def)

lemma unhideVideo_eq:
  "unhideVideo d i = (i \<in> row_id ` set (videos d),
     d\<lparr>videos := map (\<lambda>r. if row_id r = i then r\<lparr>row_isHiden := 0\<rparr> else r) (videos d)\<rparr>)"
  using where_id_empty_iff[of i "videos d"] by (auto simp: unhideVideo_def update_isHiden_def)

lemma map_row_id_update:
  "map row_id (map (\<lambda>r. if row_id r = i then r\<lparr>row_isHiden := h\<rparr> else r) rs) = map row_id rs"
  by (induction rs) auto

lemma ids_update:
  "(\<exists>r \<in> set (map (\<lambda>r. if row_id r = i then r\<lparr>row_isHiden := h\<rparr> else r) rs). row_id r = j)
     \<longleftrightarrow> (\<exists>r \<in> set rs. row_id r = j)"
  by (induction rs) auto

lemma map_unchanged: "(\<And>x. x \<in> set xs \<Longrightarrow> f x = x) \<Longrightarrow> map f xs = xs"
  by (induction xs) auto

lemma apply_op_frame:
  "map frame (videos (apply_op op d)) = map frame (videos d) \<and>
   auto_increment (apply_op op d) = auto_increment d"
  by (cases op) (auto simp: hideVideo_eq unhideVideo_eq frame_def)

lemma run_ops_frame:
  "map frame (videos (run_ops ops d)) = map frame (videos d) \<and>
   auto_increment (run_ops ops d) = auto_increment d"
  unfolding run_ops_def
proof (induction ops arbitrary: d)
  case Nil
  show ?case by simp
next
  case (Cons op ops)
  show ?case using Cons.IH[of "apply_op op d"] apply_op_frame[of op d] by simp
qed

section \<open>Lemmas about createVideo\<close>

lemma first_filter_Some:
  "\<exists>r \<in> set rs. P r \<Longrightarrow> \<exists>r. first (filter P rs) = Some r \<and> r \<in> set rs \<and> P r"
proof -
  assume "\<exists>r \<in> set rs. P r"
  then have "filter P rs \<noteq> []" by (simp add: filter_empty_conv)
  then obtain r rest where f: "filter P rs = r # rest" by (cases "filter P rs") auto
  then have "r \<in> set (filter P rs)" by simp
  then have "r \<in> set rs \<and> P r" by simp
  with f show ?thesis by (simp add: first_def)
qed

lemma first_filter_None: "\<not> (\<exists>r \<in> set rs. P r) \<Longrightarrow> first (filter P rs) = None"
  by (simp add: first_def filter_empty_conv[THEN iffD2])

lemma wf_db_id_pos: "wf_db d \<Longrightarrow> r \<in> set (videos d) \<Longrightarrow> row_id r \<noteq> 0"
  by (auto simp: wf_db_def list_all_iff)

lemma createVideo_existing:
  assumes "wf_db (db w)" and "\<exists>r \<in> set (videos (db w)). hash_matches (get_prop info ''hash'') r"
  shows "\<exists>r \<in> set (videos (db w)). hash_matches (get_prop info ''hash'') r \<and>
           first (where_hash (get_prop info ''hash'') (videos (db w))) = Some r \<and>
           createVideo getMetadataId now info fileIds w = (Some (row_id r), w)"
proof -
  obtain r where r: "first (where_hash (get_prop info ''hash'') (videos (db w))) = Some r"
      "r \<in> set (videos (db w))" "hash_matches (get_prop info ''hash'') r"
    using first_filter_Some[OF assms(2)] unfolding where_hash_def by blast
  have "row_id r \<noteq> 0" using wf_db_id_pos[OF assms(1) r(2)] .
  then have "createVideo getMetadataId now info fileIds w = (Some (row_id r), w)"
    using r(1) by (simp add: createVideo_def)
  with r show ?thesis by blast
qed

lemma createVideo_fresh:
  assumes "\<not> (\<exists>r \<in> set (videos (db w)). hash_matches (get_prop info ''hash'') r)"
  shows "createVideo getMetadataId now info fileIds w =
     (let JAVID = js_to_string (get_prop info ''company'') @ ''-'' @ js_to_string (get_prop info ''id'');
          (metaId, m') = getMetadataId JAVID (metadata w);
          w1 = w\<lparr>metadata := m', linker_calls := linker_calls w @ [JAVID]\<rparr>
      in if metaId = 0 then (None, w1)
         else (Some (auto_increment (db w)),
               w1\<lparr>db := (db w)\<lparr>videos := videos (db w) @
                      [\<lparr>row_id = auto_increment (db w),
                        row_metadataId = metaId,
                        row_videoFileId = fileIds_videoId fileIds,
                        row_isHiden = 0,
                        row_infoFileId = fileIds_metaId fileIds,
                        row_videoMetadata = stringify (JObj info),
                        row_storyboardFileIdSet = stringify (fileIds_storyboardId fileIds),
                        row_updateTime = now\<rparr>],
                    auto_increment := Suc (auto_increment (db w))\<rparr>\<rparr>))"
proof -
  have "first (where_hash (get_prop info ''hash'') (videos (db w))) = None"
    using first_filter_None[OF assms] by (simp add: where_hash_def)
  then show ?thesis
    by (simp add: createVideo_def call_getMetadataId_def insert_row_def first_def Let_def
             split: prod.splits)
qed

lemma createVideo_rows:
  "videos (db (snd (createVideo getMetadataId now info fileIds w))) = videos (db w) \<or>
   (\<exists>r. videos (db (snd (createVideo getMetadataId now info fileIds w))) = videos (db w) @ [r] \<and>
        fst (createVideo getMetadataId now info fileIds w) = Some (row_id r) \<and>
        row_isHiden r = 0)"
proof (cases "case first (where_hash (get_prop info ''hash'') (videos (db w))) of
                None \<Rightarrow> False | Some r \<Rightarrow> row_id r \<noteq> 0")
  case True
  then show ?thesis by (simp add: createVideo_def)
next
  case False
  obtain metaId m' where g: "getMetadataId
      (js_to_string (get_prop info ''company'') @ ''-'' @ js_to_string (get_prop info ''id''))
      (metadata w) = (metaId, m')"
    by (cases "getMetadataId
      (js_to_string (get_prop info ''company'') @ ''-'' @ js_to_string (get_prop info ''id''))
      (metadata w)")
  show ?thesis
  proof (cases "metaId = 0")
    case True
    with False g show ?thesis
      by (simp add: createVideo_def call_getMetadataId_def del: stringify.simps)
  next
    case nz: False
    with False g show ?thesis
      by (simp add: createVideo_def call_getMetadataId_def insert_row_def first_def
               del: stringify.simps)
  qed
qed

lemma json_extract_stringify:
  "wf_json (JObj info) \<Longrightarrow> json_extract (stringify (JObj info)) k = get_prop info k"
  by (simp add: json_extract_def parse_stringify get_prop_def del: stringify.simps wf_json.simps)

lemma isExistByHash_iff:
  "isExistByHash d h \<longleftrightarrow> (\<exists>r \<in> set (videos d). hash_matches h r)"
  by (auto simp: isExistByHash_def where_hash_def js_truthy_array_def filter_empty_conv)

section \<open>The invariant holds initially and is preserved\<close>

lemma wf_db_empty: "wf_db empty_database"
  by (simp add: wf_db_def empty_database_def)

lemma wf_db_update:
  "wf_db d \<Longrightarrow> wf_db (d\<lparr>videos := map (\<lambda>r. if row_id r = i then r\<lparr>row_isHiden := h\<rparr> else r) (videos d)\<rparr>)"
proof -
  let ?f = "\<lambda>r. if row_id r = i then r\<lparr>row_isHiden := h\<rparr> else r"
  assume wf: "wf_db d"
  have "list_all (\<lambda>r. 0 < row_id r \<and> row_id r < auto_increment d \<and>
                     parse (row_videoMetadata r) \<noteq> None \<and>
                     parse (row_storyboardFileIdSet r) \<noteq> None) (map ?f (videos d))"
    using wf by (auto simp: wf_db_def list_all_iff)
  moreover have "distinct (map row_id (map ?f (videos d)))"
    unfolding map_row_id_update using wf by (simp add: wf_db_def)
  ultimately show ?thesis using wf by (simp add: wf_db_def)
qed

lemma wf_db_hideVideo: "wf_db d \<Longrightarrow> wf_db (snd (hideVideo d i))"
  by (simp add: hideVideo_eq wf_db_update)

lemma wf_db_unhideVideo: "wf_db d \<Longrightarrow> wf_db (snd (unhideVideo d i))"
  by (simp add: unhideVideo_eq wf_db_update)

lemma wf_db_insert:
  assumes "wf_db d" and "parse (row_videoMetadata r) \<noteq> None"
    and "parse (row_storyboardFileIdSet r) \<noteq> None" and "row_id r = auto_increment d"
  shows "wf_db (d\<lparr>videos := videos d @ [r], auto_increment := Suc (auto_increment d)\<rparr>)"
  using assms by (auto simp: wf_db_def list_all_iff)

lemma wf_db_createVideo:
  assumes "wf_db (db w)" and "wf_json (JObj info)" and "wf_json (fileIds_storyboardId fileIds)"
  shows "wf_db (db (snd (createVideo getMetadataId now info fileIds w)))"
proof (cases "\<exists>r \<in> set (videos (db w)). hash_matches (get_prop info ''hash'') r")
  case True
  then show ?thesis using createVideo_existing[OF assms(1) True, of getMetadataId now fileIds] assms(1)
    by auto
next
  case False
  have p1: "parse (stringify (JObj info)) \<noteq> None" using parse_stringify[OF assms(2)] by simp
  have p2: "parse (stringify (fileIds_storyboardId fileIds)) \<noteq> None"
    using parse_stringify[OF assms(3)] by simp
  show ?thesis
    unfolding createVideo_fresh[OF False]
    using wf_db_insert[OF assms(1), where r = "\<lparr>row_id = auto_increment (db w),
            row_metadataId = m, row_videoFileId = fileIds_videoId fileIds, row_isHiden = 0,
            row_infoFileId = fileIds_metaId fileIds, row_videoMetadata = stringify (JObj info),
            row_storyboardFileIdSet = stringify (fileIds_storyboardId fileIds),
            row_updateTime = now\<rparr>" for m] p1 p2 assms(1)
    by (simp add: Let_def split: prod.splits del: stringify.simps)
qed

section \<open>Lemmas about hideVideo and unhideVideo\<close>

lemma frame_eq_same: "frame r = frame r' \<longleftrightarrow> same_but_isHiden r r'"
  by (cases r; cases r') (auto simp: frame_def same_but_isHiden_def)

lemma map_frame_eq_same:
  "map frame xs = map frame ys \<Longrightarrow> list_all2 same_but_isHiden xs ys"
proof (induction xs arbitrary: ys)
  case Nil
  then show ?case by simp
next
  case (Cons x xs)
  then obtain y ys' where ys: "ys = y # ys'" by (cases ys) auto
  with Cons.prems have "frame x = frame y" "map frame xs = map frame ys'" by simp_all
  then show ?case using Cons.IH[of ys'] ys by (simp add: frame_eq_same)
qed

lemma updated_rows:
  assumes "r \<in> set (map (\<lambda>r. if row_id r = i then r\<lparr>row_isHiden := h\<rparr> else r) rs)"
    and "row_id r = i"
  shows "row_isHiden r = h"
proof -
  from assms(1) obtain r0 where r0: "r0 \<in> set rs"
      "r = (if row_id r0 = i then r0\<lparr>row_isHiden := h\<rparr> else r0)"
    unfolding set_map by blast
  show ?thesis
  proof (cases "row_id r0 = i")
    case True
    with r0(2) show ?thesis by simp
  next
    case False
    with r0(2) assms(2) show ?thesis by simp
  qed
qed

lemma videos_hideVideo:
  "videos (snd (hideVideo d i)) = map (\<lambda>r. if row_id r = i then r\<lparr>row_isHiden := 1\<rparr> else r) (videos d)"
  by (simp add: hideVideo_eq)

lemma videos_unhideVideo:
  "videos (snd (unhideVideo d i)) = map (\<lambda>r. if row_id r = i then r\<lparr>row_isHiden := 0\<rparr> else r) (videos d)"
  by (simp add: unhideVideo_eq)

lemma fst_hideVideo: "fst (hideVideo d i) \<longleftrightarrow> (\<exists>r \<in> set (videos d). row_id r = i)"
  unfolding hideVideo_eq by auto

lemma fst_unhideVideo: "fst (unhideVideo d i) \<longleftrightarrow> (\<exists>r \<in> set (videos d). row_id r = i)"
  unfolding unhideVideo_eq by auto

lemma hideVideo_absent: "\<not> (\<exists>r \<in> set (videos d). row_id r = i) \<Longrightarrow> snd (hideVideo d i) = d"
proof -
  assume "\<not> (\<exists>r \<in> set (videos d). row_id r = i)"
  then have "map (\<lambda>r. if row_id r = i then r\<lparr>row_isHiden := 1\<rparr> else r) (videos d) = videos d"
    by (intro map_unchanged) auto
  then show ?thesis by (simp add: hideVideo_eq)
qed

lemma unhideVideo_absent: "\<not> (\<exists>r \<in> set (videos d). row_id r = i) \<Longrightarrow> snd (unhideVideo d i) = d"
proof -
  assume "\<not> (\<exists>r \<in> set (videos d). row_id r = i)"
  then have "map (\<lambda>r. if row_id r = i then r\<lparr>row_isHiden := 0\<rparr> else r) (videos d) = videos d"
    by (intro map_unchanged) auto
  then show ?thesis by (simp add: unhideVideo_eq)
qed

lemma getVideoInfo_throws: "getVideoInfo d i = Inl (ReferenceError ''item'')"
  by (simp add: getVideoInfo_def js_truthy_array_def)

section \<open>Lemmas about getVideoList\<close>

lemma getVideoList_eq:
  "getVideoList d page size' showHiden metadataId =
     process_all (window page size' (eligible_desc d showHiden metadataId)) []"
proof -
  have e: "eligible showHiden metadataId =
      (\<lambda>r. (showHiden \<or> row_isHiden r = 0) \<and> (metadataId = 0 \<or> row_metadataId r = metadataId))"
    by (rule ext) (simp add: eligible_def)
  have f: "(let result = videos d;
               result = (if \<not> showHiden then where_isHiden 0 result else result)
            in (if metadataId \<noteq> 0 then where_metadataId metadataId result else result))
           = filter (eligible showHiden metadataId) (videos d)"
    unfolding e by (cases showHiden; cases "metadataId = 0")
      (simp_all add: where_isHiden_def where_metadataId_def)
  have "getVideoList d page size' showHiden metadataId =
      process_all (paginate size' page (orderBy_id_desc
        (let result = videos d;
             result = (if \<not> showHiden then where_isHiden 0 result else result)
         in (if metadataId \<noteq> 0 then where_metadataId metadataId result else result)))) []"
    by (simp add: getVideoList_def Let_def js_truthy_array_def)
  also have "\<dots> = process_all (window page size' (eligible_desc d showHiden metadataId)) []"
    unfolding f by (simp add: paginate_def window_def eligible_desc_def)
  finally show ?thesis .
qed

lemma process_all_ok:
  assumes "\<forall>r \<in> set rs. \<exists>v. process_item r = Inr v"
  shows "\<exists>vs. process_all rs acc = Inr (acc @ vs) \<and> list_all2 (\<lambda>r v. process_item r = Inr v) rs vs"
  using assms
proof (induction rs arbitrary: acc)
  case Nil
  show ?case by simp
next
  case (Cons r rs)
  then obtain v where v: "process_item r = Inr v" by auto
  from Cons.prems have "\<forall>r \<in> set rs. \<exists>v. process_item r = Inr v" by simp
  from Cons.IH[OF this, of "acc @ [v]"] obtain vs where
    vs: "process_all rs (acc @ [v]) = Inr ((acc @ [v]) @ vs)"
        "list_all2 (\<lambda>r v. process_item r = Inr v) rs vs" by blast
  have "process_all (r # rs) acc = Inr (acc @ (v # vs))" using v vs(1) by simp
  moreover have "list_all2 (\<lambda>r v. process_item r = Inr v) (r # rs) (v # vs)" using v vs(2) by simp
  ultimately show ?case by blast
qed

lemma process_all_Inr:
  "process_all rs acc = Inr out \<Longrightarrow>
     \<exists>vs. out = acc @ vs \<and> list_all2 (\<lambda>r v. process_item r = Inr v) rs vs"
proof (induction rs arbitrary: acc)
  case Nil
  then show ?case by simp
next
  case (Cons r rs)
  from Cons.prems obtain v where v: "process_item r = Inr v"
    and rest: "process_all rs (acc @ [v]) = Inr out"
    by (auto split: sum.splits)
  from Cons.IH[OF rest] obtain vs where vs: "out = (acc @ [v]) @ vs"
      "list_all2 (\<lambda>r v. process_item r = Inr v) rs vs" by blast
  have "out = acc @ (v # vs)" using vs(1) by simp
  moreover have "list_all2 (\<lambda>r v. process_item r = Inr v) (r # rs) (v # vs)" using v vs(2) by simp
  ultimately show ?case by blast
qed

lemma process_item_wf:
  assumes "wf_db d" and "r \<in> set (videos d)"
  shows "\<exists>v. process_item r = Inr v"
proof -
  from assms obtain a b where "parse (row_videoMetadata r) = Some a"
      "parse (row_storyboardFileIdSet r) = Some b"
    by (auto simp: wf_db_def list_all_iff)
  then show ?thesis by (simp add: process_item_def JSON_parse_def)
qed

lemma process_item_fields:
  "process_item r = Inr v \<Longrightarrow>
     video_id v = row_id r \<and> video_metadataId v = row_metadataId r \<and>
     video_isHiden v = (row_isHiden r = 1)"
  by (auto simp: process_item_def split: sum.splits)

lemma set_eligible_desc:
  "set (eligible_desc d sh m) = {r \<in> set (videos d). eligible sh m r}"
  by (auto simp: eligible_desc_def orderBy_id_desc_def)

lemma set_window: "set (window page size' xs) \<subseteq> set xs"
  unfolding window_def by (meson set_take_subset set_drop_subset subset_trans)

lemma desc_sorted:
  assumes "distinct (map row_id rs)"
  shows "sorted_wrt (>) (map row_id (orderBy_id_desc rs))"
proof -
  have s: "sorted (map row_id (sort_key row_id rs))" by (rule sorted_sort_key)
  have dd: "distinct (map row_id (sort_key row_id rs))"
    using assms by (simp add: distinct_map)
  have "sorted_wrt (<) (map row_id (sort_key row_id rs))"
    using s dd by (simp add: strict_sorted_iff)
  then show ?thesis
    unfolding orderBy_id_desc_def rev_map[symmetric] sorted_wrt_rev by (simp add: rev_map)
qed

lemma list_all2_ids:
  "list_all2 (\<lambda>r v. process_item r = Inr v) rs vs \<Longrightarrow> map video_id vs = map row_id rs"
  by (induction rs vs rule: list_all2_induct) (auto dest: process_item_fields)

lemma window_rows_wf:
  assumes "wf_db d" and "r \<in> set (window page size' (eligible_desc d sh m))"
  shows "r \<in> set (videos d) \<and> eligible sh m r"
  using assms(2) set_window[of page size' "eligible_desc d sh m"] set_eligible_desc[of d sh m]
  by auto

lemma getVideoList_ok:
  assumes "wf_db d"
  shows "\<exists>vs. getVideoList d page size' sh m = Inr vs \<and>
           list_all2 (\<lambda>r v. process_item r = Inr v) (window page size' (eligible_desc d sh m)) vs"
proof -
  have "\<forall>r \<in> set (window page size' (eligible_desc d sh m)). \<exists>v. process_item r = Inr v"
    using window_rows_wf[OF assms] process_item_wf[OF assms] by blast
  from process_all_ok[OF this, of "[]"] show ?thesis by (simp add: getVideoList_eq)
qed

lemma window_map: "map f (window page size' xs) = window page size' (map f xs)"
  by (simp add: window_def take_map drop_map)

lemma getVideoList_ids:
  assumes "wf_db d"
  shows "ids_of (getVideoList d page size' sh m) = window page size' (map row_id (eligible_desc d sh m))"
proof -
  from getVideoList_ok[OF assms, of page size' sh m] obtain vs where
    vs: "getVideoList d page size' sh m = Inr vs"
        "list_all2 (\<lambda>r v. process_item r = Inr v) (window page size' (eligible_desc d sh m)) vs"
    by blast
  show ?thesis using vs(1) list_all2_ids[OF vs(2)] by (simp add: ids_of_def window_map)
qed

lemma concat_windows:
  "concat (map (\<lambda>page. window page n xs) [1..<Suc k]) = take (k * n) xs"
proof (induction k)
  case 0
  show ?case by simp
next
  case (Suc k)
  have "concat (map (\<lambda>page. window page n xs) [1..<Suc (Suc k)])
      = concat (map (\<lambda>page. window page n xs) [1..<Suc k]) @ window (Suc k) n xs"
    by simp
  also have "\<dots> = take (k * n) xs @ take n (drop (k * n) xs)"
    using Suc.IH by (simp add: window_def)
  also have "\<dots> = take (k * n + n) xs" by (simp add: take_add)
  finally show ?case by (simp add: add.commute)
qed

lemma pages_ids_eq:
  assumes "wf_db d"
  shows "pages_ids d size' sh m k = take (k * size') (map row_id (eligible_desc d sh m))"
  unfolding pages_ids_def getVideoList_ids[OF assms] by (rule concat_windows)

lemma eligible_desc_sorted:
  assumes "wf_db d"
  shows "sorted_wrt (>) (map row_id (eligible_desc d sh m))"
proof -
  have "distinct (map row_id (videos d))" using assms by (simp add: wf_db_def)
  then have "distinct (map row_id (filter (eligible sh m) (videos d)))"
    by (rule distinct_map_filter)
  then show ?thesis unfolding eligible_desc_def by (rule desc_sorted)
qed

lemma sorted_wrt_take: "sorted_wrt P xs \<Longrightarrow> sorted_wrt P (take n xs)"
  by (metis append_take_drop_id sorted_wrt_append)

lemma sorted_desc_distinct: "sorted_wrt (>) (xs :: nat list) \<Longrightarrow> distinct xs"
  by (induction xs) auto

lemma nth_in_window:
  assumes "k < length xs" and "0 < n"
  shows "xs ! k \<in> set (window (Suc (k div n)) n xs)"
proof -
  let ?a = "(k div n) * n"
  have ka: "k = ?a + k mod n" by simp
  have lt: "k mod n < n" using assms(2) by simp
  have len: "k mod n < length (take n (drop ?a xs))"
    using assms(1) lt ka by (simp add: less_diff_conv)
  have le: "?a \<le> length xs" using assms(1) ka by linarith
  have "take n (drop ?a xs) ! (k mod n) = drop ?a xs ! (k mod n)" using lt by simp
  also have "\<dots> = xs ! (?a + k mod n)" using le by (rule nth_drop)
  also have "\<dots> = xs ! k" using ka by simp
  finally have "take n (drop ?a xs) ! (k mod n) = xs ! k" .
  then show ?thesis using len unfolding window_def by (metis diff_Suc_1 nth_mem)
qed

lemma getVideoList_sound:
  assumes "getVideoList d page size' showHiden metadataId = Inr vs" and "v \<in> set vs"
  shows "(\<not> showHiden \<longrightarrow> \<not> video_isHiden v) \<and>
         (metadataId \<noteq> 0 \<longrightarrow> video_metadataId v = metadataId)"
proof -
  let ?W = "window page size' (eligible_desc d showHiden metadataId)"
  from assms(1) have "process_all ?W [] = Inr vs" by (simp add: getVideoList_eq)
  from process_all_Inr[OF this] have la: "list_all2 (\<lambda>r v. process_item r = Inr v) ?W vs"
    by simp
  from assms(2) obtain k where k: "k < length vs" "vs ! k = v" by (auto simp: in_set_conv_nth)
  have len: "length ?W = length vs" using la by (rule list_all2_lengthD)
  have pi: "process_item (?W ! k) = Inr v" using la k by (auto simp: list_all2_conv_all_nth)
  have "?W ! k \<in> set ?W" using k(1) len by simp
  then have "?W ! k \<in> set (eligible_desc d showHiden metadataId)"
    using set_window[of page size' "eligible_desc d showHiden metadataId"] by blast
  then have el: "eligible showHiden metadataId (?W ! k)" by (simp add: set_eligible_desc)
  from process_item_fields[OF pi] el show ?thesis by (auto simp: eligible_def)
qed

lemma getVideoList_complete:
  assumes "wf_db d" and "r \<in> set (videos d)" and "eligible sh m r" and "1 \<le> size'"
  shows "\<exists>page\<ge>1. row_id r \<in> set (ids_of (getVideoList d page size' sh m))"
proof -
  let ?E = "eligible_desc d sh m"
  have "r \<in> set ?E" using assms(2,3) by (simp add: set_eligible_desc)
  then obtain k where k: "k < length ?E" "?E ! k = r" by (auto simp: in_set_conv_nth)
  have "r \<in> set (window (Suc (k div size')) size' ?E)"
    using nth_in_window[OF k(1), of size'] assms(4) k(2) by simp
  then have "row_id r \<in> set (map row_id (window (Suc (k div size')) size' ?E))" by simp
  then have "row_id r \<in> set (ids_of (getVideoList d (Suc (k div size')) size' sh m))"
    by (simp only: getVideoList_ids[OF assms(1)] window_map)
  then show ?thesis by (intro exI[of _ "Suc (k div size')"]) simp
qed

lemma process_item_created:
  assumes "wf_json (JObj info)" and "wf_json sb"
  shows "process_item
           \<lparr>row_id = i, row_metadataId = m, row_videoFileId = vf, row_isHiden = 0,
            row_infoFileId = mf, row_videoMetadata = stringify (JObj info),
            row_storyboardFileIdSet = stringify sb, row_updateTime = now\<rparr>
         = Inr \<lparr>video_id = i, video_metadataId = m, video_videoFileId = vf, video_isHiden = False,
                video_infoFileId = mf, video_videoMetadata = JObj info,
                video_storyboardFileIdSet = sb, video_updateTime = now\<rparr>"
  using parse_stringify[OF assms(1)] parse_stringify[OF assms(2)]
  by (simp add: process_item_def JSON_parse_def del: stringify.simps)

section \<open>The example world\<close>

lemma example_info_wf: "wf_json (JObj example_info)"
  by (simp add: example_info_def)

lemma example_info_hash: "get_prop example_info ''hash'' = Some (JStr ''h1'')"
  by (simp add: example_info_def get_prop_def)

lemma example_row_fields:
  "row_id example_row = 1" "row_isHiden example_row = 0" "row_metadataId example_row = 1"
  by (simp_all add: example_row_def)

lemma example_row_hash: "hash_matches h example_row \<longleftrightarrow> h = Some (JStr ''h1'')"
  using json_extract_stringify[OF example_info_wf, of "''hash''"]
  by (auto simp: hash_matches_def example_row_def example_info_hash split: option.splits)

lemma example_row_parses:
  "parse (row_videoMetadata example_row) = Some (JObj example_info)"
  "parse (row_storyboardFileIdSet example_row) = Some (JArr [JNum 12, JNum 13])"
  using parse_stringify[OF example_info_wf] parse_stringify[of "JArr [JNum 12, JNum 13]"]
  by (simp_all add: example_row_def del: stringify.simps)

lemma example_world1_wf: "wf_db (db example_world1)"
  by (simp add: wf_db_def example_world1_def example_row_parses) (simp add: example_row_def)

lemma example_world0_created:
  "createVideo example_linker 1000 example_info example_fileIds example_world0 = (Some 1, example_world1)"
proof -
  have "\<not> (\<exists>r \<in> set (videos (db example_world0)). hash_matches (get_prop example_info ''hash'') r)"
    by (simp add: example_world0_def empty_database_def)
  note eq = createVideo_fresh[OF this, of example_linker 1000 example_fileIds]
  have k: "js_to_string (get_prop example_info ''company'') @ ''-'' @ js_to_string (get_prop example_info ''id'') = ''ABC-123''"
    by code_simp
  show ?thesis
    unfolding eq k
    by (simp add: example_linker_def example_world0_def example_world1_def empty_database_def
          example_row_def example_fileIds_def del: stringify.simps)
qed

lemma example_db2_wf: "wf_db example_db2"
  by (simp add: wf_db_def example_db2_def example_row2_def example_row_parses example_row_fields)

lemma example_listed:
  "getVideoList (db example_world1) 1 20 False 0
     = Inr [\<lparr>video_id = 1, video_metadataId = 1, video_videoFileId = 11, video_isHiden = False,
             video_infoFileId = 10, video_videoMetadata = JObj example_info,
             video_storyboardFileIdSet = JArr [JNum 12, JNum 13], video_updateTime = 1000\<rparr>]"
proof -
  have e: "eligible_desc (db example_world1) False 0 = [example_row]"
    by (simp add: eligible_desc_def eligible_def orderBy_id_desc_def example_world1_def
          example_row_fields)
  have p: "process_item example_row
     = Inr \<lparr>video_id = 1, video_metadataId = 1, video_videoFileId = 11, video_isHiden = False,
             video_infoFileId = 10, video_videoMetadata = JObj example_info,
             video_storyboardFileIdSet = JArr [JNum 12, JNum 13], video_updateTime = 1000\<rparr>"
    unfolding example_row_def
    by (rule process_item_created[OF example_info_wf]) simp
  show ?thesis by (simp add: getVideoList_eq e window_def p)
qed

section \<open>The claims\<close>

text \<open>
  C1. For every item whose hash matches an already stored record, \<^verbatim>\<open>createVideo\<close>
  returns the id of that existing record and inserts no new row: the table is the one
  before the call, so the record count is unchanged. The table is one that the methods
  can produce (\<open>wf_db\<close>): its ids are positive, which the test \<^verbatim>\<open>result.id\<close> of
  line 113 relies on.
\<close>

theorem createVideo_duplicate:
  assumes "wf_db (db w)"
    and "\<exists>r \<in> set (videos (db w)). hash_matches (get_prop info ''hash'') r"
  shows "\<exists>r \<in> set (videos (db w)).
           hash_matches (get_prop info ''hash'') r \<and>
           fst (createVideo getMetadataId now info fileIds w) = Some (row_id r) \<and>
           db (snd (createVideo getMetadataId now info fileIds w)) = db w \<and>
           length (videos (db (snd (createVideo getMetadataId now info fileIds w))))
             = length (videos (db w))"
  using createVideo_existing[OF assms, of getMetadataId now fileIds] by auto

theorem createVideo_duplicate_witness:
  "wf_db (db example_world1) \<and>
   (\<exists>r \<in> set (videos (db example_world1)). hash_matches (get_prop example_info_dup ''hash'') r) \<and>
   fst (createVideo example_linker 2000 example_info_dup example_fileIds example_world1) = Some 1 \<and>
   db (snd (createVideo example_linker 2000 example_info_dup example_fileIds example_world1))
     = db example_world1"
proof -
  have h: "get_prop example_info_dup ''hash'' = Some (JStr ''h1'')"
    by (simp add: example_info_dup_def get_prop_def)
  have ex: "\<exists>r \<in> set (videos (db example_world1)). hash_matches (get_prop example_info_dup ''hash'') r"
    by (simp add: example_world1_def example_row_hash h)
  have id: "row_id example_row = 1" by (simp add: example_row_def)
  show ?thesis
    using createVideo_duplicate[OF example_world1_wf ex, of example_linker 2000 example_fileIds]
      example_world1_wf ex id
    by (auto simp: example_world1_def)
qed

text \<open>
  C2. For every call of \<^verbatim>\<open>createVideo\<close> in which the Metadata Linker returns 0, no
  record is persisted: the call returns no id, the table is unchanged and
  \<^verbatim>\<open>isExistByHash\<close> of the item's hash is false afterwards. The linker is called
  only when no stored record has the hash, which is the first hypothesis.
\<close>

theorem createVideo_linkage_failed:
  assumes "\<not> (\<exists>r \<in> set (videos (db w)). hash_matches (get_prop info ''hash'') r)"
    and "fst (getMetadataId
               (js_to_string (get_prop info ''company'') @ ''-'' @ js_to_string (get_prop info ''id''))
               (metadata w)) = 0"
  shows "fst (createVideo getMetadataId now info fileIds w) = None \<and>
         db (snd (createVideo getMetadataId now info fileIds w)) = db w \<and>
         \<not> isExistByHash (db (snd (createVideo getMetadataId now info fileIds w)))
              (get_prop info ''hash'')"
proof -
  have "fst (createVideo getMetadataId now info fileIds w) = None \<and>
        db (snd (createVideo getMetadataId now info fileIds w)) = db w"
    unfolding createVideo_fresh[OF assms(1)] using assms(2)
    by (auto simp: Let_def split: prod.splits)
  then show ?thesis using assms(1) by (simp add: isExistByHash_iff)
qed

theorem createVideo_linkage_failed_witness:
  "\<not> (\<exists>r \<in> set (videos (db example_world1)).
         hash_matches (get_prop example_info_unlinked ''hash'') r) \<and>
   fst (example_linker
         (js_to_string (get_prop example_info_unlinked ''company'') @ ''-'' @
          js_to_string (get_prop example_info_unlinked ''id''))
         (metadata example_world1)) = 0 \<and>
   fst (createVideo example_linker 2000 example_info_unlinked example_fileIds example_world1) = None \<and>
   db (snd (createVideo example_linker 2000 example_info_unlinked example_fileIds example_world1))
     = db example_world1 \<and>
   \<not> isExistByHash
        (db (snd (createVideo example_linker 2000 example_info_unlinked example_fileIds example_world1)))
        (get_prop example_info_unlinked ''hash'')"
proof -
  have h: "get_prop example_info_unlinked ''hash'' = Some (JStr ''h2'')"
    by (simp add: example_info_unlinked_def get_prop_def)
  have nex: "\<not> (\<exists>r \<in> set (videos (db example_world1)).
                  hash_matches (get_prop example_info_unlinked ''hash'') r)"
    by (simp add: example_world1_def example_row_hash h)
  have k: "js_to_string (get_prop example_info_unlinked ''company'') @ ''-'' @
           js_to_string (get_prop example_info_unlinked ''id'') = ''XYZ-7''"
    by code_simp
  have z: "fst (example_linker
         (js_to_string (get_prop example_info_unlinked ''company'') @ ''-'' @
          js_to_string (get_prop example_info_unlinked ''id''))
         (metadata example_world1)) = 0"
    unfolding k by (simp add: example_linker_def)
  show ?thesis
    using createVideo_linkage_failed[where w = example_world1 and info = example_info_unlinked
            and getMetadataId = example_linker and now = 2000 and fileIds = example_fileIds]
          nex z
    by auto
qed

text \<open>
  C3. The structured-field codec round-trips: for every structured metadata object and
  every storyboard file-reference collection, empty collections and deeply nested
  objects included, decoding the encoded value gives the value back. The values are the
  JSON values in which every object has each property once.
\<close>

theorem codec_round_trip:
  "wf_json v \<Longrightarrow> JSON_parse (stringify v) = Inr v"
  by (simp add: JSON_parse_def parse_stringify)

theorem codec_round_trip_witness:
  "wf_json (JObj example_info) \<and> JSON_parse (stringify (JObj example_info)) = Inr (JObj example_info) \<and>
   wf_json (JArr []) \<and> JSON_parse (stringify (JArr [])) = Inr (JArr []) \<and>
   wf_json (fileIds_storyboardId example_fileIds) \<and>
   JSON_parse (stringify (fileIds_storyboardId example_fileIds)) = Inr (fileIds_storyboardId example_fileIds)"
proof -
  have a: "wf_json (JObj example_info)" by (simp add: example_info_def)
  have b: "wf_json (JArr [])" by simp
  have c: "wf_json (fileIds_storyboardId example_fileIds)" by (simp add: example_fileIds_def)
  show ?thesis
    using a b c codec_round_trip[OF a] codec_round_trip[OF b] codec_round_trip[OF c] by simp
qed

text \<open>
  C4. For every page of at least 1 and every size from 1 to 50, \<^verbatim>\<open>getVideoList\<close> returns
  the window that skips \<open>(page - 1) * size\<close> eligible records and takes at most \<open>size\<close> of
  the remainder, in descending order of id, each row decoded by the loop body; the ids of
  the pages 1 to \<open>k\<close>, concatenated, are in descending order and have no duplicate; and
  a page beyond the available data is the empty list, not an error. The table is one
  that the methods can produce, so that every stored text parses.
\<close>

theorem getVideoList_pages:
  assumes "wf_db d" and "1 \<le> page" and "1 \<le> size'" and "size' \<le> 50"
  shows "(\<exists>vs. getVideoList d page size' showHiden metadataId = Inr vs \<and>
              list_all2 (\<lambda>r v. process_item r = Inr v)
                (window page size' (eligible_desc d showHiden metadataId)) vs \<and>
              length vs \<le> size') \<and>
         set (eligible_desc d showHiden metadataId)
           = set (filter (eligible showHiden metadataId) (videos d)) \<and>
         sorted_wrt (>) (map row_id (eligible_desc d showHiden metadataId)) \<and>
         distinct (pages_ids d size' showHiden metadataId k) \<and>
         sorted_wrt (>) (pages_ids d size' showHiden metadataId k) \<and>
         (length (eligible_desc d showHiden metadataId) \<le> (page - 1) * size' \<longrightarrow>
            getVideoList d page size' showHiden metadataId = Inr [])"
proof (intro conjI impI)
  let ?E = "eligible_desc d showHiden metadataId"
  from getVideoList_ok[OF assms(1), of page size' showHiden metadataId] obtain vs where
    vs: "getVideoList d page size' showHiden metadataId = Inr vs"
        "list_all2 (\<lambda>r v. process_item r = Inr v) (window page size' ?E) vs"
    by blast
  have "length vs = length (window page size' ?E)" using vs(2) by (simp add: list_all2_lengthD)
  then have "length vs \<le> size'" by (simp add: window_def)
  with vs show "\<exists>vs. getVideoList d page size' showHiden metadataId = Inr vs \<and>
              list_all2 (\<lambda>r v. process_item r = Inr v) (window page size' ?E) vs \<and>
              length vs \<le> size'" by blast
  show "set ?E = set (filter (eligible showHiden metadataId) (videos d))"
    by (simp add: set_eligible_desc)
  show s: "sorted_wrt (>) (map row_id ?E)" by (rule eligible_desc_sorted[OF assms(1)])
  show sp: "sorted_wrt (>) (pages_ids d size' showHiden metadataId k)"
    unfolding pages_ids_eq[OF assms(1)] using s by (rule sorted_wrt_take)
  show "distinct (pages_ids d size' showHiden metadataId k)"
    using sp by (rule sorted_desc_distinct)
  show "getVideoList d page size' showHiden metadataId = Inr []"
    if "length ?E \<le> (page - 1) * size'"
    using that by (simp add: getVideoList_eq window_def)
qed

theorem getVideoList_pages_witness:
  "wf_db example_db2 \<and> (1::nat) \<le> 3 \<and> (1::nat) \<le> 1 \<and> (1::nat) \<le> 50 \<and>
   ids_of (getVideoList example_db2 1 1 True 0) = [2] \<and>
   ids_of (getVideoList example_db2 2 1 True 0) = [1] \<and>
   getVideoList example_db2 3 1 True 0 = Inr [] \<and>
   pages_ids example_db2 1 True 0 2 = [2, 1] \<and>
   distinct (pages_ids example_db2 1 True 0 2) \<and>
   sorted_wrt (>) (pages_ids example_db2 1 True 0 2)"
proof -
  have e: "eligible_desc example_db2 True 0 = [example_row2, example_row]"
    by (simp add: eligible_desc_def eligible_def orderBy_id_desc_def example_db2_def
          example_row2_def example_row_fields)
  have i: "row_id example_row2 = 2" by (simp add: example_row2_def)
  have a: "ids_of (getVideoList example_db2 1 1 True 0) = [2]"
    by (simp add: getVideoList_ids[OF example_db2_wf] e window_def i example_row_fields)
  have b: "ids_of (getVideoList example_db2 2 1 True 0) = [1]"
    by (simp add: getVideoList_ids[OF example_db2_wf] e window_def i example_row_fields)
  have c: "pages_ids example_db2 1 True 0 2 = [2, 1]"
    by (simp add: pages_ids_eq[OF example_db2_wf] e i example_row_fields)
  have h: "(1::nat) \<le> 3" "(1::nat) \<le> 1" "(1::nat) \<le> 50" by simp_all
  have l: "length (eligible_desc example_db2 True 0) \<le> (3 - 1) * 1" by (simp add: e)
  show ?thesis
    using getVideoList_pages[OF example_db2_wf h, of True 0 2] a b c l example_db2_wf
    by simp
qed

text \<open>
  C5. The eligibility filter of \<^verbatim>\<open>getVideoList\<close> is exact. Every returned record is not
  hidden when \<open>showHiden\<close> is false and has the given \<^verbatim>\<open>metadataId\<close> when a filter is
  supplied; and every stored record that passes the filter is on some page, for every
  page size of at least 1. In particular, after \<^verbatim>\<open>hideVideo\<close> of an id no page of the
  listing without hidden records contains the id, under any metadata filter, while the
  listing with hidden records contains it, on some page, when a record has the id (and
  the metadata filter, if any, is its \<^verbatim>\<open>metadataId\<close>).
\<close>

theorem getVideoList_filter:
  assumes "wf_db d"
  shows "(\<forall>page size' vs. getVideoList d page size' showHiden metadataId = Inr vs \<longrightarrow>
            (\<forall>v \<in> set vs. (\<not> showHiden \<longrightarrow> \<not> video_isHiden v) \<and>
                           (metadataId \<noteq> 0 \<longrightarrow> video_metadataId v = metadataId))) \<and>
         (\<forall>r \<in> set (videos d). \<forall>size'. 1 \<le> size' \<and> eligible showHiden metadataId r \<longrightarrow>
            (\<exists>page\<ge>1. row_id r \<in> set (ids_of (getVideoList d page size' showHiden metadataId)))) \<and>
         (\<forall>page size' m. i \<notin> set (ids_of (getVideoList (snd (hideVideo d i)) page size' False m))) \<and>
         (\<forall>r \<in> set (videos d). \<forall>size'. 1 \<le> size' \<and> row_id r = i \<and> (m = 0 \<or> row_metadataId r = m) \<longrightarrow>
            (\<exists>page\<ge>1. i \<in> set (ids_of (getVideoList (snd (hideVideo d i)) page size' True m))))"
proof (intro conjI allI ballI impI)
  fix page size' vs v
  assume "getVideoList d page size' showHiden metadataId = Inr vs" "v \<in> set vs"
  from getVideoList_sound[OF this]
  show "\<not> showHiden \<Longrightarrow> \<not> video_isHiden v"
    and "metadataId \<noteq> 0 \<Longrightarrow> video_metadataId v = metadataId" by simp_all
next
  fix r and size' :: nat
  assume "r \<in> set (videos d)" "1 \<le> size' \<and> eligible showHiden metadataId r"
  then show "\<exists>page\<ge>1. row_id r \<in> set (ids_of (getVideoList d page size' showHiden metadataId))"
    using getVideoList_complete[OF assms] by blast
next
  fix page size' m
  let ?d = "snd (hideVideo d i)"
  have wf: "wf_db ?d" using assms by (rule wf_db_hideVideo)
  show "i \<notin> set (ids_of (getVideoList ?d page size' False m))"
  proof
    assume "i \<in> set (ids_of (getVideoList ?d page size' False m))"
    then have "i \<in> set (map row_id (window page size' (eligible_desc ?d False m)))"
      by (simp only: getVideoList_ids[OF wf] window_map)
    then obtain r where r: "r \<in> set (window page size' (eligible_desc ?d False m))" "row_id r = i"
      by auto
    from window_rows_wf[OF wf r(1)] have mem: "r \<in> set (videos ?d)" and el: "eligible False m r"
      by simp_all
    from mem have "row_isHiden r = 1"
      unfolding videos_hideVideo using r(2) by (rule updated_rows)
    with el show False by (simp add: eligible_def)
  qed
next
  fix r and size' :: nat
  let ?d = "snd (hideVideo d i)"
  assume r: "r \<in> set (videos d)"
    and h: "1 \<le> size' \<and> row_id r = i \<and> (m = 0 \<or> row_metadataId r = m)"
  from h have sz: "1 \<le> size'" and ri: "row_id r = i \<and> (m = 0 \<or> row_metadataId r = m)"
    by simp_all
  have wf: "wf_db ?d" using assms by (rule wf_db_hideVideo)
  let ?r = "r\<lparr>row_isHiden := 1\<rparr>"
  have "?r \<in> set (videos ?d)"
    unfolding videos_hideVideo using r ri by (auto simp: image_iff intro!: bexI[of _ r])
  moreover have "eligible True m ?r" using ri by (simp add: eligible_def)
  ultimately have "\<exists>page\<ge>1. row_id ?r \<in> set (ids_of (getVideoList ?d page size' True m))"
    using getVideoList_complete[OF wf _ _ sz] by blast
  then show "\<exists>page\<ge>1. i \<in> set (ids_of (getVideoList ?d page size' True m))"
    using ri by simp
qed

theorem getVideoList_filter_witness:
  "wf_db example_db2 \<and>
   (\<exists>vs. getVideoList example_db2 1 20 False 1 = Inr vs \<and>
         (\<forall>v \<in> set vs. \<not> video_isHiden v \<and> video_metadataId v = 1)) \<and>
   example_row \<in> set (videos example_db2) \<and> eligible False 1 example_row \<and>
   (\<exists>page\<ge>1. row_id example_row \<in> set (ids_of (getVideoList example_db2 page 1 False 1))) \<and>
   1 \<notin> set (ids_of (getVideoList (snd (hideVideo example_db2 1)) 1 20 False 0)) \<and>
   (\<exists>page\<ge>1. 1 \<in> set (ids_of (getVideoList (snd (hideVideo example_db2 1)) page 1 True 0)))"
proof -
  note t = getVideoList_filter[OF example_db2_wf, where showHiden = False and metadataId = 1
             and i = 1 and m = 0]
  from getVideoList_ok[OF example_db2_wf, of 1 20 False 1] obtain vs where
    vs: "getVideoList example_db2 1 20 False 1 = Inr vs" by blast
  have a: "\<forall>v \<in> set vs. \<not> video_isHiden v \<and> video_metadataId v = 1"
    using t vs by auto
  have mem: "example_row \<in> set (videos example_db2)" by (simp add: example_db2_def)
  have el: "eligible False 1 example_row" by (simp add: eligible_def example_row_fields)
  have b: "\<exists>page\<ge>1. row_id example_row \<in> set (ids_of (getVideoList example_db2 page 1 False 1))"
    using t mem el by auto
  have c: "1 \<notin> set (ids_of (getVideoList (snd (hideVideo example_db2 1)) 1 20 False 0))"
    using t by blast
  have d: "\<exists>page\<ge>1. 1 \<in> set (ids_of (getVideoList (snd (hideVideo example_db2 1)) page 1 True 0))"
    using t mem example_row_fields(1) by auto
  show ?thesis using example_db2_wf vs a mem el b c d by blast
qed

text \<open>
  C6. For every valid item with a hash not yet in the table, \<^verbatim>\<open>createVideo\<close>
  followed by \<^verbatim>\<open>getVideoInfo\<close> of the returned id yields a record whose decoded fields
  equal the inputs. The code does not do this: \<^verbatim>\<open>createVideo\<close> on the empty table stores
  the example item under id 1, and \<^verbatim>\<open>getVideoInfo\<close> of id 1 then throws the
  ReferenceError for \<^verbatim>\<open>item\<close> instead of returning a record. The sibling method
  \<^verbatim>\<open>getVideoList\<close> does return that record, with the decoded fields equal to the inputs.
\<close>

theorem getVideoInfo_after_create:
  "createVideo example_linker 1000 example_info example_fileIds example_world0 = (Some 1, example_world1) \<and>
   getVideoInfo (db example_world1) 1 = Inl (ReferenceError ''item'') \<and>
   getVideoList (db example_world1) 1 20 False 0
     = Inr [\<lparr>video_id = 1, video_metadataId = 1, video_videoFileId = 11, video_isHiden = False,
             video_infoFileId = 10, video_videoMetadata = JObj example_info,
             video_storyboardFileIdSet = fileIds_storyboardId example_fileIds,
             video_updateTime = 1000\<rparr>]"
proof -
  have sb: "fileIds_storyboardId example_fileIds = JArr [JNum 12, JNum 13]"
    by (simp add: example_fileIds_def)
  show ?thesis
    unfolding sb using example_world0_created getVideoInfo_throws[of "db example_world1" 1] example_listed
    by (intro conjI)
qed

text \<open>
  C7. \<^verbatim>\<open>hideVideo\<close> sets \<^verbatim>\<open>isHiden\<close> to 1 in the record with the id and returns
  true when such a record exists; it returns false, and leaves the table as it is, when
  no record has the id. \<^verbatim>\<open>unhideVideo\<close> is symmetric, with \<^verbatim>\<open>isHiden\<close> 0.
\<close>

theorem hide_unhide_result:
  "((\<exists>r \<in> set (videos d). row_id r = i) \<longrightarrow>
      fst (hideVideo d i) \<and>
      (\<exists>r \<in> set (videos (snd (hideVideo d i))). row_id r = i) \<and>
      (\<forall>r \<in> set (videos (snd (hideVideo d i))). row_id r = i \<longrightarrow> row_isHiden r = 1) \<and>
      fst (unhideVideo d i) \<and>
      (\<exists>r \<in> set (videos (snd (unhideVideo d i))). row_id r = i) \<and>
      (\<forall>r \<in> set (videos (snd (unhideVideo d i))). row_id r = i \<longrightarrow> row_isHiden r = 0)) \<and>
   (\<not> (\<exists>r \<in> set (videos d). row_id r = i) \<longrightarrow>
      \<not> fst (hideVideo d i) \<and> snd (hideVideo d i) = d \<and>
      \<not> fst (unhideVideo d i) \<and> snd (unhideVideo d i) = d)"
proof (intro conjI impI)
  assume ex: "\<exists>r \<in> set (videos d). row_id r = i"
  show "fst (hideVideo d i)" using ex fst_hideVideo by blast
  show "fst (unhideVideo d i)" using ex fst_unhideVideo by blast
  show "\<exists>r \<in> set (videos (snd (hideVideo d i))). row_id r = i"
    unfolding videos_hideVideo ids_update by (rule ex)
  show "\<exists>r \<in> set (videos (snd (unhideVideo d i))). row_id r = i"
    unfolding videos_unhideVideo ids_update by (rule ex)
  show "\<forall>r \<in> set (videos (snd (hideVideo d i))). row_id r = i \<longrightarrow> row_isHiden r = 1"
    unfolding videos_hideVideo by (intro ballI impI) (rule updated_rows)
  show "\<forall>r \<in> set (videos (snd (unhideVideo d i))). row_id r = i \<longrightarrow> row_isHiden r = 0"
    unfolding videos_unhideVideo by (intro ballI impI) (rule updated_rows)
next
  assume nex: "\<not> (\<exists>r \<in> set (videos d). row_id r = i)"
  show "\<not> fst (hideVideo d i)" using nex fst_hideVideo by blast
  show "\<not> fst (unhideVideo d i)" using nex fst_unhideVideo by blast
  show "snd (hideVideo d i) = d" using nex by (rule hideVideo_absent)
  show "snd (unhideVideo d i) = d" using nex by (rule unhideVideo_absent)
qed

theorem hide_unhide_result_witness:
  "(\<exists>r \<in> set (videos (db example_world1)). row_id r = 1) \<and>
   fst (hideVideo (db example_world1) 1) \<and>
   videos (snd (hideVideo (db example_world1) 1)) = [example_row\<lparr>row_isHiden := 1\<rparr>] \<and>
   fst (unhideVideo (snd (hideVideo (db example_world1) 1)) 1) \<and>
   \<not> (\<exists>r \<in> set (videos (db example_world1)). row_id r = 5) \<and>
   \<not> fst (hideVideo (db example_world1) 5) \<and> snd (hideVideo (db example_world1) 5) = db example_world1 \<and>
   \<not> fst (unhideVideo (db example_world1) 5) \<and> snd (unhideVideo (db example_world1) 5) = db example_world1"
proof -
  note id = example_row_fields(1)
  have a: "\<exists>r \<in> set (videos (db example_world1)). row_id r = 1"
    by (simp add: example_world1_def id)
  have b: "\<not> (\<exists>r \<in> set (videos (db example_world1)). row_id r = 5)"
    by (simp add: example_world1_def id)
  have c: "videos (snd (hideVideo (db example_world1) 1)) = [example_row\<lparr>row_isHiden := 1\<rparr>]"
    by (simp add: hideVideo_eq example_world1_def id)
  have d: "\<exists>r \<in> set (videos (snd (hideVideo (db example_world1) 1))). row_id r = 1"
    unfolding c by (simp add: id)
  show ?thesis
    using hide_unhide_result[of "db example_world1" 1] hide_unhide_result[of "db example_world1" 5]
          hide_unhide_result[of "snd (hideVideo (db example_world1) 1)" 1] a b c d
    by simp
qed

text \<open>
  C8. For every existing record id, \<^verbatim>\<open>hideVideo\<close> and then \<^verbatim>\<open>unhideVideo\<close> restore
  the visibility, so that \<^verbatim>\<open>getVideoInfo\<close> afterwards reports the record as not hidden.
  The code does not do this: in the example table with the one record of id 1, the row
  has \<^verbatim>\<open>isHiden\<close> 0 again after the two calls, but \<^verbatim>\<open>getVideoInfo\<close> of id 1 throws
  the ReferenceError for \<^verbatim>\<open>item\<close> instead of reporting it.
\<close>

theorem getVideoInfo_after_hide_unhide:
  "map row_id (videos (db example_world1)) = [1] \<and>
   map row_isHiden (videos (snd (unhideVideo (snd (hideVideo (db example_world1) 1)) 1))) = [0] \<and>
   getVideoInfo (snd (unhideVideo (snd (hideVideo (db example_world1) 1)) 1)) 1
     = Inl (ReferenceError ''item'')"
  by (simp add: getVideoInfo_throws hideVideo_eq unhideVideo_eq example_world1_def example_row_fields)

text \<open>
  C9. \<^verbatim>\<open>hideVideo\<close> and \<^verbatim>\<open>unhideVideo\<close> modify the column \<^verbatim>\<open>isHiden\<close> only: after
  every sequence of the two operations the table has the same rows in the same order, and
  each row has its id, metadataId, videoFileId, infoFileId, storyboardFileIdSet,
  videoMetadata and updateTime unchanged. Every record that \<^verbatim>\<open>createVideo\<close> creates has
  \<^verbatim>\<open>isHiden\<close> 0: a call either leaves the rows as they are or appends one row, with
  the returned id and \<^verbatim>\<open>isHiden\<close> 0.
\<close>

theorem only_isHiden_changes:
  "list_all2 same_but_isHiden (videos d) (videos (run_ops ops d)) \<and>
   (videos (db (snd (createVideo getMetadataId now info fileIds w))) = videos (db w) \<or>
    (\<exists>r. videos (db (snd (createVideo getMetadataId now info fileIds w))) = videos (db w) @ [r] \<and>
         fst (createVideo getMetadataId now info fileIds w) = Some (row_id r) \<and>
         row_isHiden r = 0))"
proof
  have "map frame (videos d) = map frame (videos (run_ops ops d))"
    using run_ops_frame[of ops d] by simp
  then show "list_all2 same_but_isHiden (videos d) (videos (run_ops ops d))"
    by (rule map_frame_eq_same)
  show "videos (db (snd (createVideo getMetadataId now info fileIds w))) = videos (db w) \<or>
    (\<exists>r. videos (db (snd (createVideo getMetadataId now info fileIds w))) = videos (db w) @ [r] \<and>
         fst (createVideo getMetadataId now info fileIds w) = Some (row_id r) \<and>
         row_isHiden r = 0)"
    by (rule createVideo_rows)
qed

theorem only_isHiden_changes_witness:
  "videos (run_ops [Hide 1, Unhide 1, Hide 1] (db example_world1)) = [example_row\<lparr>row_isHiden := 1\<rparr>] \<and>
   list_all2 same_but_isHiden (videos (db example_world1))
     (videos (run_ops [Hide 1, Unhide 1, Hide 1] (db example_world1))) \<and>
   row_isHiden (last (videos (db (snd (createVideo example_linker 1000 example_info example_fileIds
                                          example_world0))))) = 0"
proof -
  have a: "videos (run_ops [Hide 1, Unhide 1, Hide 1] (db example_world1)) = [example_row\<lparr>row_isHiden := 1\<rparr>]"
    by (simp add: run_ops_def hideVideo_eq unhideVideo_eq example_world1_def example_row_fields)
  have b: "row_isHiden (last (videos (db (snd (createVideo example_linker 1000 example_info
               example_fileIds example_world0))))) = 0"
    by (simp add: example_world0_created example_world1_def example_row_fields)
  show ?thesis
    using only_isHiden_changes[of "db example_world1" "[Hide 1, Unhide 1, Hide 1]"
            example_linker 1000 example_info example_fileIds example_world0] a b
    by simp
qed

text \<open>
  C10. When \<^verbatim>\<open>createVideo\<close> is called with a hash that matches an existing record, the
  Metadata Linker is never invoked: the list of linker calls and the state of the linker
  are the ones before the call, and the result is the same for every linker.
\<close>

theorem createVideo_duplicate_skips_linker:
  assumes "wf_db (db w)"
    and "\<exists>r \<in> set (videos (db w)). hash_matches (get_prop info ''hash'') r"
  shows "linker_calls (snd (createVideo getMetadataId now info fileIds w)) = linker_calls w \<and>
         metadata (snd (createVideo getMetadataId now info fileIds w)) = metadata w \<and>
         createVideo getMetadataId now info fileIds w = createVideo getMetadataId' now info fileIds w"
  using createVideo_existing[OF assms, of getMetadataId now fileIds]
        createVideo_existing[OF assms, of getMetadataId' now fileIds]
        by auto

theorem createVideo_duplicate_skips_linker_witness:
  "wf_db (db example_world1) \<and>
   (\<exists>r \<in> set (videos (db example_world1)). hash_matches (get_prop example_info_dup ''hash'') r) \<and>
   linker_calls (snd (createVideo example_linker 2000 example_info_dup example_fileIds example_world1))
     = [''ABC-123''] \<and>
   metadata (snd (createVideo example_linker 2000 example_info_dup example_fileIds example_world1)) = 1"
proof -
  have h: "get_prop example_info_dup ''hash'' = Some (JStr ''h1'')"
    by (simp add: example_info_dup_def get_prop_def)
  have ex: "\<exists>r \<in> set (videos (db example_world1)). hash_matches (get_prop example_info_dup ''hash'') r"
    by (simp add: example_world1_def example_row_hash h)
  show ?thesis
    using createVideo_duplicate_skips_linker[OF example_world1_wf ex, of example_linker 2000 example_fileIds]
      example_world1_wf ex
    by (simp add: example_world1_def)
qed

end
